theory Spec2Isabelle
  imports Main "HOL-Library.Word" "HOL-Library.Multiset"
begin

section \<open>Data model of \<^verbatim>\<open>main.c\<close>\<close>

type_synonym byte = "8 word"
type_synonym u16 = "16 word"
type_synonym u64 = "64 word"

text \<open>\<^verbatim>\<open>struct NetworkMetrics\<close> (lines 34-37): four \<^verbatim>\<open>uint64_t\<close> counters.\<close>

record NetworkMetrics =
  totalInputBytes :: u64
  totalOutputBytes :: u64
  totalInputPackets :: u64
  totalOutputPackets :: u64

text \<open>
  The four fields of the system's \<^verbatim>\<open>struct if_data64\<close> that the program reads, each a
  \<^verbatim>\<open>u_int64_t\<close>. Both \<^verbatim>\<open>if_msghdr2.ifm_data\<close> and \<^verbatim>\<open>ifmibdata.ifmd_data\<close> have this type.
\<close>

record if_data64 =
  ifi_ipackets :: u64
  ifi_opackets :: u64
  ifi_ibytes :: u64
  ifi_obytes :: u64

text \<open>
  The program reads the routing messages through the system's struct declarations
  (\<^verbatim>\<open>net/if.h\<close>, \<^verbatim>\<open>net/if_var.h\<close>, \<^verbatim>\<open>net/route.h\<close>), which are not part of the repository.
  What it needs from them is taken as a parameter: the value of the type tag
  \<^verbatim>\<open>RTM_IFINFO2\<close> and the byte offsets, from the start of a message, of the fields it reads.
  \<^verbatim>\<open>ifm_msglen\<close>, \<^verbatim>\<open>ifm_type\<close> and \<^verbatim>\<open>ifm_index\<close> are read through \<^verbatim>\<open>struct if_msghdr\<close>, the four
  counters through \<^verbatim>\<open>struct if_msghdr2\<close>.
\<close>

record layout =
  RTM_IFINFO2 :: byte
  off_msglen :: nat
  off_type :: nat
  off_index :: nat
  off_ipackets :: nat
  off_opackets :: nat
  off_ibytes :: nat
  off_obytes :: nat

text \<open>
  The declarations of the macOS SDK, used where a concrete platform is needed:
  \<^verbatim>\<open>ifm_msglen\<close> is the \<^verbatim>\<open>u_short\<close> at offset 0, \<^verbatim>\<open>ifm_type\<close> the \<^verbatim>\<open>u_char\<close> at offset 3,
  \<^verbatim>\<open>ifm_index\<close> the \<^verbatim>\<open>u_short\<close> at offset 12, \<^verbatim>\<open>ifm_data\<close> of \<^verbatim>\<open>if_msghdr2\<close> starts at offset 32,
  and \<^verbatim>\<open>RTM_IFINFO2\<close> is \<^verbatim>\<open>0x12\<close>. Every theorem below holds for any layout.
\<close>

definition darwin :: layout where
  "darwin = \<lparr>RTM_IFINFO2 = 0x12, off_msglen = 0, off_type = 3, off_index = 12,
     off_ipackets = 56, off_opackets = 72, off_ibytes = 96, off_obytes = 104\<rparr>"

subsection \<open>Reading the buffer\<close>

text \<open>
  The buffer is the byte array \<^verbatim>\<open>buffer[0 .. length)\<close>; the pointer \<^verbatim>\<open>next\<close> is the offset
  from \<^verbatim>\<open>buffer\<close>. Multi-byte fields are little-endian, as on every machine macOS runs on.
  The buffer holds the bytes the kernel wrote; what lies behind them is not determined
  by the program. A read of a field that does not lie wholly inside the buffer has no
  defined result: the readers return \<open>None\<close> there, and the outcome of the program is
  \<open>OutOfBounds\<close>. The cursor itself is plain address arithmetic and may pass the end.
\<close>

fun le_nat :: "byte list \<Rightarrow> nat" where
  "le_nat [] = 0"
| "le_nat (b # bs) = unat b + 256 * le_nat bs"

definition rd :: "nat \<Rightarrow> byte list \<Rightarrow> nat \<Rightarrow> nat option" where
  "rd n buf p = (if p + n \<le> length buf then Some (le_nat (take n (drop p buf))) else None)"

definition ifm_msglen :: "layout \<Rightarrow> byte list \<Rightarrow> nat \<Rightarrow> u16 option" where
  "ifm_msglen L buf p = map_option word_of_nat (rd 2 buf (p + off_msglen L))"

definition ifm_type :: "layout \<Rightarrow> byte list \<Rightarrow> nat \<Rightarrow> byte option" where
  "ifm_type L buf p = map_option word_of_nat (rd 1 buf (p + off_type L))"

definition ifm_index :: "layout \<Rightarrow> byte list \<Rightarrow> nat \<Rightarrow> u16 option" where
  "ifm_index L buf p = map_option word_of_nat (rd 2 buf (p + off_index L))"

definition rd64 :: "byte list \<Rightarrow> nat \<Rightarrow> u64 option" where
  "rd64 buf p = map_option word_of_nat (rd 8 buf p)"

text \<open>The four reads of \<^verbatim>\<open>message2->ifm_data\<close> (lines 99-102), in the order of the source.\<close>

definition ifm_data :: "layout \<Rightarrow> byte list \<Rightarrow> nat \<Rightarrow> if_data64 option" where
  "ifm_data L buf p =
     (case rd64 buf (p + off_ipackets L) of None \<Rightarrow> None | Some ip \<Rightarrow>
      case rd64 buf (p + off_opackets L) of None \<Rightarrow> None | Some op \<Rightarrow>
      case rd64 buf (p + off_ibytes L) of None \<Rightarrow> None | Some ib \<Rightarrow>
      case rd64 buf (p + off_obytes L) of None \<Rightarrow> None | Some ob \<Rightarrow>
        Some \<lparr>ifi_ipackets = ip, ifi_opackets = op, ifi_ibytes = ib, ifi_obytes = ob\<rparr>)"

subsection \<open>The operating system and the trace of the process\<close>

text \<open>
  The kernel is a parameter: three \<^verbatim>\<open>sysctl\<close> requests over a kernel state \<open>'os\<close>. A
  request fails with \<open>Inl\<close> of the text of \<^verbatim>\<open>strerror(errno)\<close>, or succeeds with \<open>Inr\<close>:
  \<^item> line 50, \<^verbatim>\<open>NET_RT_IFLIST2\<close> with no buffer: the length needed;
  \<^item> line 56, \<^verbatim>\<open>NET_RT_IFLIST2\<close> into a buffer of the given size: the bytes written (the new
    value of \<^verbatim>\<open>length\<close> is their number);
  \<^item> line 84, \<^verbatim>\<open>IFMIB_IFDATA\<close> for an interface index: \<^verbatim>\<open>mibdata.ifmd_data\<close>.
  \<^verbatim>\<open>malloc\<close> is taken to succeed.
\<close>

record 'os kernel =
  sysctl_iflist2_size :: "'os \<Rightarrow> (string + nat) \<times> 'os"
  sysctl_iflist2 :: "nat \<Rightarrow> 'os \<Rightarrow> (string + byte list) \<times> 'os"
  sysctl_ifdata :: "int \<Rightarrow> 'os \<Rightarrow> (string + if_data64) \<times> 'os"

text \<open>
  What the process does, in order: every \<^verbatim>\<open>sysctl\<close> with its reply, every \<^verbatim>\<open>printf\<close> and
  \<^verbatim>\<open>fprintf(stderr, ...)\<close> with its format and arguments, every \<^verbatim>\<open>sleep\<close>. \<open>Visit p g\<close> is
  an observation added to the loop of line 62: the message at offset \<open>p\<close> was examined,
  and \<open>g\<close> tells whether line 65 took it for an \<^verbatim>\<open>RTM_IFINFO2\<close> message.
\<close>

datatype event =
    Sysctl_iflist2_size "string + nat"
  | Sysctl_iflist2 nat "string + byte list"
  | Sysctl_ifdata int "string + if_data64"
  | Visit nat bool
  | Printf string "u64 list"
  | Fprintf_stderr string "string list"
  | Sleep nat

record 'os world =
  os :: 'os
  events :: "event list"

definition emit :: "event list \<Rightarrow> 'os world \<Rightarrow> 'os world" where
  "emit es w = w\<lparr>events := events w @ es\<rparr>"

text \<open>
  A call returns a value, or the process ends in \<^verbatim>\<open>exit(status)\<close>, or it reads outside
  the buffer.
\<close>

datatype 'a outcome = Return 'a | Exit int | OutOfBounds

section \<open>\<^verbatim>\<open>GetNetworkMetrics\<close>\<close>

text \<open>The four \<^verbatim>\<open>+=\<close> of lines 93-96 and of lines 99-102.\<close>

definition add_data :: "NetworkMetrics \<Rightarrow> if_data64 \<Rightarrow> NetworkMetrics" where
  "add_data metrics d =
     metrics\<lparr>totalInputPackets := totalInputPackets metrics + ifi_ipackets d,
             totalOutputPackets := totalOutputPackets metrics + ifi_opackets d,
             totalInputBytes := totalInputBytes metrics + ifi_ibytes d,
             totalOutputBytes := totalOutputBytes metrics + ifi_obytes d\<rparr>"

text \<open>Lines 72-103: the counters of one \<^verbatim>\<open>RTM_IFINFO2\<close> message are added to \<^verbatim>\<open>metrics\<close>.\<close>

definition accumulate ::
  "'os kernel \<Rightarrow> layout \<Rightarrow> bool \<Rightarrow> byte list \<Rightarrow> nat \<Rightarrow> NetworkMetrics \<Rightarrow> 'os world
    \<Rightarrow> NetworkMetrics outcome \<times> 'os world" where
  "accumulate K L useIfmibData buffer next metrics w =
     (if useIfmibData then
        (case ifm_index L buffer next of
           None \<Rightarrow> (OutOfBounds, w)
         | Some idx \<Rightarrow>
             (case sysctl_ifdata K (uint idx) (os w) of
                (Inl err, os') \<Rightarrow>
                  (Exit 1, emit [Sysctl_ifdata (uint idx) (Inl err),
                                 Fprintf_stderr ''sysctl: %s\<newline>'' [err]] (w\<lparr>os := os'\<rparr>))
              | (Inr d, os') \<Rightarrow>
                  (Return (add_data metrics d),
                   emit [Sysctl_ifdata (uint idx) (Inr d)] (w\<lparr>os := os'\<rparr>))))
      else
        (case ifm_data L buffer next of
           None \<Rightarrow> (OutOfBounds, w)
         | Some d \<Rightarrow> (Return (add_data metrics d), w)))"

text \<open>Lines 63-106: the body of the loop, from the cursor \<^verbatim>\<open>next\<close> to the new cursor.\<close>

definition loop_body ::
  "'os kernel \<Rightarrow> layout \<Rightarrow> bool \<Rightarrow> byte list \<Rightarrow> nat \<Rightarrow> NetworkMetrics \<Rightarrow> 'os world
    \<Rightarrow> (nat \<times> NetworkMetrics) outcome \<times> 'os world" where
  "loop_body K L useIfmibData buffer next metrics w =
     (case ifm_type L buffer next of
        None \<Rightarrow> (OutOfBounds, w)
      | Some ty \<Rightarrow>
          (case (if ty = RTM_IFINFO2 L
                 then accumulate K L useIfmibData buffer next metrics (emit [Visit next True] w)
                 else (Return metrics, emit [Visit next False] w)) of
             (Return metrics', w') \<Rightarrow>
               (case ifm_msglen L buffer next of
                  None \<Rightarrow> (OutOfBounds, w')
                | Some len \<Rightarrow> (Return (next + unat len, metrics'), w'))
           | (Exit c, w') \<Rightarrow> (Exit c, w')
           | (OutOfBounds, w') \<Rightarrow> (OutOfBounds, w')))"

text \<open>
  Lines 62-107: the loop runs while \<^verbatim>\<open>next < end\<close>. It need not end, so the result is an
  option: \<open>None\<close> is a loop that never returns.
\<close>

partial_function (option) scan ::
  "'os kernel \<Rightarrow> layout \<Rightarrow> bool \<Rightarrow> byte list \<Rightarrow> nat \<Rightarrow> NetworkMetrics \<Rightarrow> 'os world
    \<Rightarrow> ((nat \<times> NetworkMetrics) outcome \<times> 'os world) option" where
  "scan K L useIfmibData buffer next metrics w =
     (if next < length buffer then
        (case loop_body K L useIfmibData buffer next metrics w of
           (Return (next', metrics'), w') \<Rightarrow> scan K L useIfmibData buffer next' metrics' w'
         | (Exit c, w') \<Rightarrow> Some (Exit c, w')
         | (OutOfBounds, w') \<Rightarrow> Some (OutOfBounds, w'))
      else Some (Return (next, metrics), w))"

declare scan.simps [code]

text \<open>Lines 49-59: the two \<^verbatim>\<open>sysctl\<close> calls that fetch the buffer.\<close>

definition fetch :: "'os kernel \<Rightarrow> 'os world \<Rightarrow> byte list outcome \<times> 'os world" where
  "fetch K w =
     (case sysctl_iflist2_size K (os w) of
        (Inl err, os1) \<Rightarrow>
          (Exit 1, emit [Sysctl_iflist2_size (Inl err),
                         Fprintf_stderr ''sysctl: %s\<newline>'' [err]] (w\<lparr>os := os1\<rparr>))
      | (Inr length1, os1) \<Rightarrow>
          (case sysctl_iflist2 K length1 os1 of
             (Inl err, os2) \<Rightarrow>
               (Exit 1, emit [Sysctl_iflist2_size (Inr length1),
                              Sysctl_iflist2 length1 (Inl err),
                              Fprintf_stderr ''sysctl: %s\<newline>'' [err]] (w\<lparr>os := os2\<rparr>))
           | (Inr buffer, os2) \<Rightarrow>
               (Return buffer, emit [Sysctl_iflist2_size (Inr length1),
                                     Sysctl_iflist2 length1 (Inr buffer)] (w\<lparr>os := os2\<rparr>))))"

text \<open>Line 61: \<^verbatim>\<open>(struct NetworkMetrics){}\<close>.\<close>

definition zero_metrics :: NetworkMetrics where
  "zero_metrics = \<lparr>totalInputBytes = 0, totalOutputBytes = 0,
                   totalInputPackets = 0, totalOutputPackets = 0\<rparr>"

definition GetNetworkMetrics ::
  "'os kernel \<Rightarrow> layout \<Rightarrow> bool \<Rightarrow> 'os world \<Rightarrow> (NetworkMetrics outcome \<times> 'os world) option" where
  "GetNetworkMetrics K L useIfmibData w =
     (case fetch K w of
        (Return buffer, w1) \<Rightarrow>
          (case scan K L useIfmibData buffer 0 zero_metrics w1 of
             None \<Rightarrow> None
           | Some (Return (next, metrics), w2) \<Rightarrow> Some (Return metrics, w2)
           | Some (Exit c, w2) \<Rightarrow> Some (Exit c, w2)
           | Some (OutOfBounds, w2) \<Rightarrow> Some (OutOfBounds, w2))
      | (Exit c, w1) \<Rightarrow> Some (Exit c, w1)
      | (OutOfBounds, w1) \<Rightarrow> Some (OutOfBounds, w1))"

section \<open>\<^verbatim>\<open>main\<close>\<close>

text \<open>Lines 121, 122, 128 and 129: the four deltas, \<^verbatim>\<open>uint64_t\<close> subtractions.\<close>

definition inputPacketsDelta :: "NetworkMetrics \<Rightarrow> NetworkMetrics \<Rightarrow> u64" where
  "inputPacketsDelta lastMetrics currentMetrics =
     totalInputPackets currentMetrics - totalInputPackets lastMetrics"

definition outputPacketsDelta :: "NetworkMetrics \<Rightarrow> NetworkMetrics \<Rightarrow> u64" where
  "outputPacketsDelta lastMetrics currentMetrics =
     totalOutputPackets currentMetrics - totalOutputPackets lastMetrics"

definition inputBytesDelta :: "NetworkMetrics \<Rightarrow> NetworkMetrics \<Rightarrow> u64" where
  "inputBytesDelta lastMetrics currentMetrics =
     totalInputBytes currentMetrics - totalInputBytes lastMetrics"

definition outputBytesDelta :: "NetworkMetrics \<Rightarrow> NetworkMetrics \<Rightarrow> u64" where
  "outputBytesDelta lastMetrics currentMetrics =
     totalOutputBytes currentMetrics - totalOutputBytes lastMetrics"

text \<open>Lines 120-131: the six lines of the report.\<close>

definition report :: "NetworkMetrics \<Rightarrow> NetworkMetrics \<Rightarrow> event list" where
  "report lastMetrics currentMetrics =
     [Printf ''--- PACKETS ---\<newline>'' [],
      Printf ''  Input (Download): %llu (total), %llu (delta)\<newline>''
        [totalInputPackets currentMetrics, inputPacketsDelta lastMetrics currentMetrics],
      Printf ''  Output (Upload): %llu (total), %llu (delta)\<newline>''
        [totalOutputPackets currentMetrics, outputPacketsDelta lastMetrics currentMetrics],
      Printf ''--- BYTES ---\<newline>'' [],
      Printf ''  Input (Download): %llu (total), %llu (delta)\<newline>''
        [totalInputBytes currentMetrics, inputBytesDelta lastMetrics currentMetrics],
      Printf ''  Output (Upload): %llu (total), %llu (delta)\<newline>''
        [totalOutputBytes currentMetrics, outputBytesDelta lastMetrics currentMetrics]]"

text \<open>Lines 134-142: the two checks, on the \<^verbatim>\<open>uint64_t\<close> totals.\<close>

definition input_overflow :: "NetworkMetrics \<Rightarrow> NetworkMetrics \<Rightarrow> event list" where
  "input_overflow lastMetrics currentMetrics =
     (if totalInputBytes currentMetrics < totalInputBytes lastMetrics then
        [Printf ''!! INPUT OVERFLOW !!\<newline>'' [],
         Printf ''Before: %llu, After: %llu, Difference: %llu\<newline>''
           [totalInputBytes lastMetrics, totalInputBytes currentMetrics,
            totalInputBytes lastMetrics - totalInputBytes currentMetrics]]
      else [])"

definition output_overflow :: "NetworkMetrics \<Rightarrow> NetworkMetrics \<Rightarrow> event list" where
  "output_overflow lastMetrics currentMetrics =
     (if totalOutputBytes currentMetrics < totalOutputBytes lastMetrics then
        [Printf ''!! OUTPUT OVERFLOW !!\<newline>'' [],
         Printf ''Before: %llu, After: %llu, Difference: %llu\<newline>''
           [totalOutputBytes lastMetrics, totalOutputBytes currentMetrics,
            totalOutputBytes lastMetrics - totalOutputBytes currentMetrics]]
      else [])"

text \<open>
  Lines 117-146: one turn of \<^verbatim>\<open>while (1)\<close>. The value returned is the new \<^verbatim>\<open>lastMetrics\<close>
  (line 146).
\<close>

definition iteration ::
  "'os kernel \<Rightarrow> layout \<Rightarrow> bool \<Rightarrow> NetworkMetrics \<Rightarrow> 'os world
    \<Rightarrow> (NetworkMetrics outcome \<times> 'os world) option" where
  "iteration K L useIfmibData lastMetrics w =
     (case GetNetworkMetrics K L useIfmibData (emit [Sleep 1] w) of
        None \<Rightarrow> None
      | Some (Return currentMetrics, w1) \<Rightarrow>
          Some (Return currentMetrics,
                emit (report lastMetrics currentMetrics
                      @ input_overflow lastMetrics currentMetrics
                      @ output_overflow lastMetrics currentMetrics
                      @ [Printf ''\<newline>\<newline>'' []]) w1)
      | Some (Exit c, w1) \<Rightarrow> Some (Exit c, w1)
      | Some (OutOfBounds, w1) \<Rightarrow> Some (OutOfBounds, w1))"

text \<open>
  Lines 113-147: \<^verbatim>\<open>main\<close> sets \<^verbatim>\<open>useIfmibData = true\<close>, takes a first sample and loops for
  ever; \<open>main n\<close> is the process after \<open>n\<close> turns of the loop.
\<close>

fun turns ::
  "'os kernel \<Rightarrow> layout \<Rightarrow> nat \<Rightarrow> NetworkMetrics \<Rightarrow> 'os world
    \<Rightarrow> (NetworkMetrics outcome \<times> 'os world) option" where
  "turns K L 0 lastMetrics w = Some (Return lastMetrics, w)"
| "turns K L (Suc n) lastMetrics w =
     (case iteration K L True lastMetrics w of
        None \<Rightarrow> None
      | Some (Return currentMetrics, w1) \<Rightarrow> turns K L n currentMetrics w1
      | Some (Exit c, w1) \<Rightarrow> Some (Exit c, w1)
      | Some (OutOfBounds, w1) \<Rightarrow> Some (OutOfBounds, w1))"

definition main ::
  "'os kernel \<Rightarrow> layout \<Rightarrow> nat \<Rightarrow> 'os world \<Rightarrow> (NetworkMetrics outcome \<times> 'os world) option" where
  "main K L n w =
     (case GetNetworkMetrics K L True w of
        None \<Rightarrow> None
      | Some (Return lastMetrics, w1) \<Rightarrow> turns K L n lastMetrics w1
      | Some (Exit c, w1) \<Rightarrow> Some (Exit c, w1)
      | Some (OutOfBounds, w1) \<Rightarrow> Some (OutOfBounds, w1))"

section \<open>Sample inputs\<close>

text \<open>
  Inputs on which the theorems below are instantiated. \<open>ifinfo2_msg\<close> is an
  \<^verbatim>\<open>RTM_IFINFO2\<close> message of 160 bytes (the size of \<^verbatim>\<open>struct if_msghdr2\<close>) in the layout
  \<open>darwin\<close>, with the interface index and the low byte of each of the four counters
  given; \<open>other_msg\<close> is a message of 20 bytes with the type tag \<^verbatim>\<open>RTM_NEWADDR\<close>.
  \<open>overshoot_buffer\<close> holds one message of 20 bytes that declares 100,
  \<open>zero_length_buffer\<close> one that declares 0. The kernel \<open>kernel_of buf\<close>
  hands out \<open>buf\<close> and answers every interface query; its state counts the requests.
  \<open>failing_kernel\<close> refuses the query for interface 2, \<open>size_failing_kernel\<close> the
  request for the length of the buffer, \<open>read_failing_kernel\<close> the request that fills it.
\<close>

definition ifinfo2_msg :: "byte \<Rightarrow> byte \<Rightarrow> byte \<Rightarrow> byte \<Rightarrow> byte \<Rightarrow> byte list" where
  "ifinfo2_msg idx ip op ib ob =
     [160, 0, 5, 0x12] @ replicate 8 0 @ [idx, 0] @ replicate 42 0
     @ ip # replicate 15 0 @ op # replicate 23 0 @ ib # replicate 7 0 @ ob # replicate 55 0"

definition other_msg :: "byte list" where
  "other_msg = [20, 0, 5, 0x0c] @ replicate 16 0"

definition sample_records :: "byte list list" where
  "sample_records = [ifinfo2_msg 1 1 2 3 4, other_msg, ifinfo2_msg 2 10 20 30 40]"

definition sample_buffer :: "byte list" where
  "sample_buffer = concat sample_records"

definition overshoot_buffer :: "byte list" where
  "overshoot_buffer = [100, 0, 5, 0x0c] @ replicate 16 0"

definition zero_length_buffer :: "byte list" where
  "zero_length_buffer = [0, 0, 5, 0x0c] @ replicate 16 0"

definition kernel_of :: "byte list \<Rightarrow> nat kernel" where
  "kernel_of buf =
     \<lparr>sysctl_iflist2_size = (\<lambda>s. (Inr (length buf), Suc s)),
      sysctl_iflist2 = (\<lambda>n s. (Inr buf, Suc s)),
      sysctl_ifdata = (\<lambda>i s. (Inr \<lparr>ifi_ipackets = 100, ifi_opackets = 200,
                                      ifi_ibytes = 300 + word_of_nat s, ifi_obytes = 5\<rparr>, Suc s))\<rparr>"

definition sample_kernel :: "nat kernel" where
  "sample_kernel = kernel_of sample_buffer"

definition failing_kernel :: "nat kernel" where
  "failing_kernel =
     \<lparr>sysctl_iflist2_size = (\<lambda>s. (Inr 340, Suc s)),
      sysctl_iflist2 = (\<lambda>n s. (Inr sample_buffer, Suc s)),
      sysctl_ifdata = (\<lambda>i s. if i = 2 then (Inl ''Device not configured'', Suc s)
                               else (Inr \<lparr>ifi_ipackets = 100, ifi_opackets = 200,
                                           ifi_ibytes = 300, ifi_obytes = 5\<rparr>, Suc s))\<rparr>"

definition size_failing_kernel :: "nat kernel" where
  "size_failing_kernel =
     \<lparr>sysctl_iflist2_size = (\<lambda>s. (Inl ''Operation not permitted'', Suc s)),
      sysctl_iflist2 = (\<lambda>n s. (Inr sample_buffer, Suc s)),
      sysctl_ifdata = (\<lambda>i s. (Inr \<lparr>ifi_ipackets = 100, ifi_opackets = 200,
                                      ifi_ibytes = 300, ifi_obytes = 5\<rparr>, Suc s))\<rparr>"

definition read_failing_kernel :: "nat kernel" where
  "read_failing_kernel =
     \<lparr>sysctl_iflist2_size = (\<lambda>s. (Inr 340, Suc s)),
      sysctl_iflist2 = (\<lambda>n s. (Inl ''Cannot allocate memory'', Suc s)),
      sysctl_ifdata = (\<lambda>i s. (Inr \<lparr>ifi_ipackets = 100, ifi_opackets = 200,
                                      ifi_ibytes = 300, ifi_obytes = 5\<rparr>, Suc s))\<rparr>"

definition initial_world :: "nat world" where
  "initial_world = \<lparr>os = 0, events = []\<rparr>"

text \<open>The samples and the traces of a pass over \<open>sample_buffer\<close> from \<open>initial_world\<close>.\<close>

definition embedded_sample :: NetworkMetrics where
  "embedded_sample = \<lparr>totalInputBytes = 33, totalOutputBytes = 44,
                       totalInputPackets = 11, totalOutputPackets = 22\<rparr>"

definition embedded_world :: "nat world" where
  "embedded_world =
     \<lparr>os = 2,
      events = [Sysctl_iflist2_size (Inr 340), Sysctl_iflist2 340 (Inr sample_buffer),
                Visit 0 True, Visit 160 False, Visit 180 True]\<rparr>"

definition ifmib_sample :: NetworkMetrics where
  "ifmib_sample = \<lparr>totalInputBytes = 605, totalOutputBytes = 10,
                    totalInputPackets = 200, totalOutputPackets = 400\<rparr>"

definition ifmib_world :: "nat world" where
  "ifmib_world =
     \<lparr>os = 4,
      events = [Sysctl_iflist2_size (Inr 340), Sysctl_iflist2 340 (Inr sample_buffer),
                Visit 0 True,
                Sysctl_ifdata 1 (Inr \<lparr>ifi_ipackets = 100, ifi_opackets = 200,
                                       ifi_ibytes = 302, ifi_obytes = 5\<rparr>),
                Visit 160 False, Visit 180 True,
                Sysctl_ifdata 2 (Inr \<lparr>ifi_ipackets = 100, ifi_opackets = 200,
                                       ifi_ibytes = 303, ifi_obytes = 5\<rparr>)]\<rparr>"

definition failed_events :: "event list" where
  "failed_events =
     [Sysctl_iflist2_size (Inr 340), Sysctl_iflist2 340 (Inr sample_buffer),
      Visit 0 True,
      Sysctl_ifdata 1 (Inr \<lparr>ifi_ipackets = 100, ifi_opackets = 200,
                             ifi_ibytes = 300, ifi_obytes = 5\<rparr>),
      Visit 160 False, Visit 180 True,
      Sysctl_ifdata 2 (Inl ''Device not configured''),
      Fprintf_stderr ''sysctl: %s\<newline>'' [''Device not configured'']]"

definition failed_world :: "nat world" where
  "failed_world = \<lparr>os = 4, events = Sleep 1 # failed_events\<rparr>"

section \<open>Notions used to state the properties\<close>

text \<open>
  Projections of a trace: the interface queries with their replies, the messages
  examined with their classification, the offsets of the messages taken for
  \<^verbatim>\<open>RTM_IFINFO2\<close>; the requests that failed; the lines written to standard output.
\<close>

fun queries :: "event list \<Rightarrow> (int \<times> (string + if_data64)) list" where
  "queries [] = []"
| "queries (Sysctl_ifdata i r # es) = (i, r) # queries es"
| "queries (e # es) = queries es"

fun visits :: "event list \<Rightarrow> (nat \<times> bool) list" where
  "visits [] = []"
| "visits (Visit p g # es) = (p, g) # visits es"
| "visits (e # es) = visits es"

definition generic_offsets :: "event list \<Rightarrow> nat list" where
  "generic_offsets es = map fst (filter snd (visits es))"

fun failed :: "event \<Rightarrow> bool" where
  "failed (Sysctl_iflist2_size r) = isl r"
| "failed (Sysctl_iflist2 n r) = isl r"
| "failed (Sysctl_ifdata i r) = isl r"
| "failed e = False"

fun is_Printf :: "event \<Rightarrow> bool" where
  "is_Printf (Printf f xs) = True"
| "is_Printf e = False"

text \<open>The events a pass leaves behind while it scans: visits and answered queries.\<close>

fun scan_event :: "event \<Rightarrow> bool" where
  "scan_event (Visit p g) = True"
| "scan_event (Sysctl_ifdata i r) = (\<not> isl r)"
| "scan_event e = False"

text \<open>
  The aggregate in the words of the specification: each of the four counters is summed,
  independently, over the counter sets of the pass.
\<close>

definition aggregate :: "if_data64 list \<Rightarrow> NetworkMetrics" where
  "aggregate ds =
     \<lparr>totalInputBytes = sum_list (map ifi_ibytes ds),
      totalOutputBytes = sum_list (map ifi_obytes ds),
      totalInputPackets = sum_list (map ifi_ipackets ds),
      totalOutputPackets = sum_list (map ifi_opackets ds)\<rparr>"

text \<open>
  The invariant of the loop of line 62, over the events \<open>es\<close> added since its start and
  the running \<^verbatim>\<open>metrics\<close>.
\<close>

definition pass_inv ::
  "layout \<Rightarrow> bool \<Rightarrow> byte list \<Rightarrow> NetworkMetrics \<Rightarrow> event list \<Rightarrow> NetworkMetrics \<Rightarrow> bool" where
  "pass_inv L u buf m0 es m \<longleftrightarrow>
     list_all scan_event es \<and>
     (\<exists>ds. m = foldl add_data m0 ds \<and>
        (if u then map (\<lambda>q. Some (fst q)) (queries es)
                     = map (\<lambda>p. map_option uint (ifm_index L buf p)) (generic_offsets es)
                  \<and> map snd (queries es) = map Inr ds
         else queries es = []
              \<and> map Some ds = map (ifm_data L buf) (generic_offsets es)))"

text \<open>
  A well-formed message: its declared length is its length, its type tag can be read,
  and when the tag is \<^verbatim>\<open>RTM_IFINFO2\<close> the interface index and the four counters lie
  inside it.
\<close>

definition well_formed :: "layout \<Rightarrow> byte list \<Rightarrow> bool" where
  "well_formed L r \<longleftrightarrow>
     (case ifm_msglen L r 0 of
        None \<Rightarrow> False
      | Some len \<Rightarrow> unat len = length r \<and>
          (case ifm_type L r 0 of
             None \<Rightarrow> False
           | Some ty \<Rightarrow> ty \<noteq> RTM_IFINFO2 L \<or> (ifm_index L r 0 \<noteq> None \<and> ifm_data L r 0 \<noteq> None)))"

definition is_generic :: "layout \<Rightarrow> byte list \<Rightarrow> bool" where
  "is_generic L r \<longleftrightarrow> ifm_type L r 0 = Some (RTM_IFINFO2 L)"

fun expected_visits :: "layout \<Rightarrow> nat \<Rightarrow> byte list list \<Rightarrow> (nat \<times> bool) list" where
  "expected_visits L p [] = []"
| "expected_visits L p (r # rs) = (p, is_generic L r) # expected_visits L (p + length r) rs"

text \<open>
  The states the loop of line 62 comes to, from the cursor 0 with \<^verbatim>\<open>metrics\<close> \<open>m0\<close> in the
  world \<open>w0\<close>: each turn that completes leads from one to the next.
\<close>

inductive reaches ::
  "'os kernel \<Rightarrow> layout \<Rightarrow> bool \<Rightarrow> byte list \<Rightarrow> NetworkMetrics \<Rightarrow> 'os world
    \<Rightarrow> nat \<Rightarrow> NetworkMetrics \<Rightarrow> 'os world \<Rightarrow> bool"
  for K L u buf m0 w0 where
  start: "reaches K L u buf m0 w0 0 m0 w0"
| turn: "reaches K L u buf m0 w0 p m w \<Longrightarrow> p < length buf
          \<Longrightarrow> loop_body K L u buf p m w = (Return (p', m'), w')
          \<Longrightarrow> reaches K L u buf m0 w0 p' m' w'"

code_pred reaches .

section \<open>The loop over the messages\<close>

lemma queries_append [simp]: "queries (xs @ ys) = queries xs @ queries ys"
  by (induction xs rule: queries.induct) simp_all

lemma visits_append [simp]: "visits (xs @ ys) = visits xs @ visits ys"
  by (induction xs rule: visits.induct) simp_all

lemma generic_offsets_append [simp]:
  "generic_offsets (xs @ ys) = generic_offsets xs @ generic_offsets ys"
  by (simp add: generic_offsets_def)

lemma pass_inv_Nil: "pass_inv L u buf m0 [] m0"
  unfolding pass_inv_def by (auto intro: exI [of _ "[]"] simp: generic_offsets_def)

lemma pass_inv_step:
  assumes "pass_inv L u buf m0 es m"
      and "loop_body K L u buf p m w = (Return (p', m'), w')"
  shows "\<exists>new. events w' = events w @ new \<and> pass_inv L u buf m0 (es @ new) m'"
proof -
  from assms(1) obtain ds where
    se: "list_all scan_event es" and m: "m = foldl add_data m0 ds" and
    t: "u \<Longrightarrow> map (\<lambda>q. Some (fst q)) (queries es)
                     = map (\<lambda>p. map_option uint (ifm_index L buf p)) (generic_offsets es)
                  \<and> map snd (queries es) = map Inr ds" and
    f: "\<not> u \<Longrightarrow> queries es = [] \<and> map Some ds = map (ifm_data L buf) (generic_offsets es)"
    unfolding pass_inv_def by (auto split: if_splits)
  obtain ty where ty: "ifm_type L buf p = Some ty"
    using assms(2) by (cases "ifm_type L buf p") (auto simp: loop_body_def)
  show ?thesis
  proof (cases "ty = RTM_IFINFO2 L")
    case False
    with assms(2) ty have "events w' = events w @ [Visit p False]" "m' = m"
      by (auto simp: loop_body_def emit_def split: option.splits)
    with assms(1) show ?thesis
      by (auto simp: pass_inv_def generic_offsets_def)
  next
    case True
    show ?thesis
    proof (cases u)
      case False
      with True assms(2) ty obtain d where
        "ifm_data L buf p = Some d" "m' = add_data m d" "events w' = events w @ [Visit p True]"
        by (auto simp: loop_body_def accumulate_def emit_def split: option.splits)
      with se m f False show ?thesis
        unfolding pass_inv_def
        by (intro exI [of _ "[Visit p True]"]) (auto simp: generic_offsets_def intro!: exI [of _ "ds @ [d]"])
    next
      case u: True
      with True assms(2) ty obtain idx d where
        "ifm_index L buf p = Some idx" "m' = add_data m d"
        "events w' = events w @ [Visit p True, Sysctl_ifdata (uint idx) (Inr d)]"
        by (auto simp: loop_body_def accumulate_def emit_def split: option.splits prod.splits sum.splits)
      with se m t u show ?thesis
        unfolding pass_inv_def
        by (intro exI [of _ "[Visit p True, Sysctl_ifdata (uint idx) (Inr d)]"])
           (auto simp: generic_offsets_def intro!: exI [of _ "ds @ [d]"])
    qed
  qed
qed

lemma scan_rule_aux:
  assumes run: "scan K L u buf p m w = Some y"
      and init: "I p m w"
      and step: "\<forall>p m w p' m' w'. I p m w \<and> p < length buf \<and>
        loop_body K L u buf p m w = (Return (p', m'), w') \<longrightarrow> I p' m' w'"
  shows "\<exists>p0 m0 w0. I p0 m0 w0 \<and>
      ((length buf \<le> p0 \<and> y = (Return (p0, m0), w0)) \<or>
       (p0 < length buf \<and> loop_body K L u buf p0 m0 w0 = y \<and> (\<forall>x. fst y \<noteq> Return x)))"
  using init step
proof (induction rule: scan.raw_induct [OF _ run])
  case (1 scan K L u buf p m w y)
  note eq = "1.hyps" and inv = "1.prems"(1) and step = "1.prems"(2)
  show ?case
  proof (cases "p < length buf")
    case False
    with eq have "y = (Return (p, m), w)" by simp
    with False inv show ?thesis by (intro exI[of _ p] exI[of _ m] exI[of _ w]) simp
  next
    case True
    obtain r w1 where lb: "loop_body K L u buf p m w = (r, w1)" by (cases "loop_body K L u buf p m w")
    show ?thesis
    proof (cases r)
      case (Return x)
      obtain p' m' where x: "x = (p', m')" by (cases x)
      from eq True lb Return x have "scan K L u buf p' m' w1 = Some y" by simp
      moreover from inv step True lb Return x have "I p' m' w1" by blast
      ultimately show ?thesis using "1.IH"[of K L u buf p' m' w1 y] step by blast
    next
      case (Exit c)
      with eq True lb have "y = (Exit c, w1)" by simp
      with True lb Exit inv show ?thesis
        by (intro exI[of _ p] exI[of _ m] exI[of _ w]) simp
    next
      case OutOfBounds
      with eq True lb have "y = (OutOfBounds, w1)" by simp
      with True lb OutOfBounds inv show ?thesis
        by (intro exI[of _ p] exI[of _ m] exI[of _ w]) simp
    qed
  qed
qed

lemma loop_body_Exit:
  assumes "loop_body K L u buf p m w = (Exit c, w')"
  shows "c = 1 \<and> u \<and> (\<exists>idx err. ifm_index L buf p = Some idx \<and>
           events w' = events w @ [Visit p True, Sysctl_ifdata (uint idx) (Inl err),
                                   Fprintf_stderr ''sysctl: %s\<newline>'' [err]])"
  using assms
  by (auto simp: loop_body_def accumulate_def emit_def
      split: option.splits prod.splits sum.splits if_splits outcome.splits)

lemma loop_body_OutOfBounds:
  assumes "loop_body K L u buf p m w = (OutOfBounds, w')"
  shows "\<exists>new. events w' = events w @ new \<and> list_all scan_event new
           \<and> (\<not> u \<longrightarrow> queries new = [])"
  using assms
  by (auto simp: loop_body_def accumulate_def emit_def
      split: option.splits prod.splits sum.splits if_splits outcome.splits)

lemma scan_trace:
  assumes "scan K L u buf p m0 w = Some (r, w')"
  shows "\<exists>es. events w' = events w @ es \<and>
     (case r of
        Return x \<Rightarrow> length buf \<le> fst x \<and> pass_inv L u buf m0 es (snd x)
      | Exit c \<Rightarrow> c = 1 \<and> u \<and> (\<exists>es0 m q idx err.
            es = es0 @ [Visit q True, Sysctl_ifdata (uint idx) (Inl err),
                        Fprintf_stderr ''sysctl: %s\<newline>'' [err]]
            \<and> pass_inv L u buf m0 es0 m \<and> ifm_index L buf q = Some idx)
      | OutOfBounds \<Rightarrow> list_all scan_event es \<and> (\<not> u \<longrightarrow> queries es = []))"
proof -
  let ?I = "\<lambda>(p::nat) m w1. \<exists>es. events w1 = events w @ es \<and> pass_inv L u buf m0 es m"
  have init: "?I p m0 w" by (simp add: pass_inv_Nil)
  have step: "\<forall>p m w1 p' m' w1'. ?I p m w1 \<and> p < length buf \<and>
        loop_body K L u buf p m w1 = (Return (p', m'), w1') \<longrightarrow> ?I p' m' w1'"
  proof (intro allI impI, elim conjE exE)
    fix p m w1 p' m' w1' es
    assume e: "events w1 = events w @ es" and inv: "pass_inv L u buf m0 es m"
      and lb: "loop_body K L u buf p m w1 = (Return (p', m'), w1')"
    from pass_inv_step [OF inv lb] obtain new where
      "events w1' = events w1 @ new" "pass_inv L u buf m0 (es @ new) m'" by blast
    with e show "?I p' m' w1'" by (intro exI [of _ "es @ new"]) simp
  qed
  from scan_rule_aux [of K L u buf p m0 w "(r, w')" ?I, OF assms init step]
  obtain p0 m1 w1 es where
    e: "events w1 = events w @ es" and inv: "pass_inv L u buf m0 es m1" and
    fin: "(length buf \<le> p0 \<and> (r, w') = (Return (p0, m1), w1)) \<or>
          (p0 < length buf \<and> loop_body K L u buf p0 m1 w1 = (r, w') \<and> (\<forall>x. r \<noteq> Return x))"
    by auto
  from fin show ?thesis
  proof
    assume "length buf \<le> p0 \<and> (r, w') = (Return (p0, m1), w1)"
    with e inv show ?thesis by (intro exI [of _ es]) simp
  next
    assume a: "p0 < length buf \<and> loop_body K L u buf p0 m1 w1 = (r, w') \<and> (\<forall>x. r \<noteq> Return x)"
    show ?thesis
    proof (cases r)
      case (Return x)
      with a show ?thesis by simp
    next
      case (Exit c)
      with a have "loop_body K L u buf p0 m1 w1 = (Exit c, w')" by simp
      from loop_body_Exit [OF this] obtain idx err where
        "c = 1" "u" "ifm_index L buf p0 = Some idx"
        "events w' = events w1 @ [Visit p0 True, Sysctl_ifdata (uint idx) (Inl err),
                                   Fprintf_stderr ''sysctl: %s\<newline>'' [err]]" by blast
      with e inv Exit show ?thesis
        by (intro exI [of _ "es @ [Visit p0 True, Sysctl_ifdata (uint idx) (Inl err),
                                   Fprintf_stderr ''sysctl: %s\<newline>'' [err]]"]) auto
    next
      case OutOfBounds
      with a have "loop_body K L u buf p0 m1 w1 = (OutOfBounds, w')" by simp
      from loop_body_OutOfBounds [OF this] obtain new where
        "events w' = events w1 @ new" "list_all scan_event new" "\<not> u \<longrightarrow> queries new = []"
        by blast
      with e inv OutOfBounds show ?thesis
        by (intro exI [of _ "es @ new"]) (auto simp: pass_inv_def)
    qed
  qed
qed

lemma fetch_cases:
  "(\<exists>err os1. fetch K w = (Exit 1, emit [Sysctl_iflist2_size (Inl err),
        Fprintf_stderr ''sysctl: %s\<newline>'' [err]] (w\<lparr>os := os1\<rparr>)))
   \<or> (\<exists>n err os2. fetch K w = (Exit 1, emit [Sysctl_iflist2_size (Inr n),
        Sysctl_iflist2 n (Inl err), Fprintf_stderr ''sysctl: %s\<newline>'' [err]] (w\<lparr>os := os2\<rparr>)))
   \<or> (\<exists>n buffer os2. fetch K w = (Return buffer, emit [Sysctl_iflist2_size (Inr n),
        Sysctl_iflist2 n (Inr buffer)] (w\<lparr>os := os2\<rparr>)))"
proof -
  obtain r1 os1 where a: "sysctl_iflist2_size K (os w) = (r1, os1)" by force
  show ?thesis
  proof (cases r1)
    case (Inl err)
    with a have "fetch K w = (Exit 1, emit [Sysctl_iflist2_size (Inl err),
        Fprintf_stderr ''sysctl: %s\<newline>'' [err]] (w\<lparr>os := os1\<rparr>))"
      by (simp add: fetch_def)
    then show ?thesis by blast
  next
    case (Inr n)
    obtain r2 os2 where b: "sysctl_iflist2 K n os1 = (r2, os2)" by force
    show ?thesis
    proof (cases r2)
      case (Inl err)
      with a b Inr have "fetch K w = (Exit 1, emit [Sysctl_iflist2_size (Inr n),
        Sysctl_iflist2 n (Inl err), Fprintf_stderr ''sysctl: %s\<newline>'' [err]] (w\<lparr>os := os2\<rparr>))"
        by (simp add: fetch_def)
      then show ?thesis by blast
    next
      case r: (Inr buffer)
      with a b Inr have "fetch K w = (Return buffer, emit [Sysctl_iflist2_size (Inr n),
        Sysctl_iflist2 n (Inr buffer)] (w\<lparr>os := os2\<rparr>))"
        by (simp add: fetch_def)
      then show ?thesis by blast
    qed
  qed
qed

lemma GetNetworkMetrics_Return:
  assumes "GetNetworkMetrics K L u w = Some (Return M, w')"
  shows "\<exists>n buffer os2 p.
     fetch K w = (Return buffer, emit [Sysctl_iflist2_size (Inr n),
                                       Sysctl_iflist2 n (Inr buffer)] (w\<lparr>os := os2\<rparr>))
     \<and> scan K L u buffer 0 zero_metrics
          (emit [Sysctl_iflist2_size (Inr n), Sysctl_iflist2 n (Inr buffer)] (w\<lparr>os := os2\<rparr>))
        = Some (Return (p, M), w')"
  using assms fetch_cases [of K w]
  by (elim disjE exE)
     (auto simp: GetNetworkMetrics_def split: option.splits outcome.splits prod.splits)

lemma foldl_add_data:
  "foldl add_data m ds =
     \<lparr>totalInputBytes = totalInputBytes m + sum_list (map ifi_ibytes ds),
      totalOutputBytes = totalOutputBytes m + sum_list (map ifi_obytes ds),
      totalInputPackets = totalInputPackets m + sum_list (map ifi_ipackets ds),
      totalOutputPackets = totalOutputPackets m + sum_list (map ifi_opackets ds)\<rparr>"
  by (induction ds arbitrary: m) (simp_all add: add_data_def add.assoc)

lemma foldl_add_data_aggregate: "foldl add_data zero_metrics ds = aggregate ds"
  by (simp add: foldl_add_data aggregate_def zero_metrics_def)

lemma sum_list_map_mset:
  fixes f :: "'a \<Rightarrow> u64"
  shows "mset xs = mset ys \<Longrightarrow> sum_list (map f xs) = sum_list (map f ys)"
proof -
  assume "mset xs = mset ys"
  then have "mset (map f xs) = mset (map f ys)" by simp
  then have "sum_mset (mset (map f xs)) = sum_mset (mset (map f ys))" by (rule arg_cong)
  then show ?thesis by (simp only: sum_mset_sum_list)
qed

lemma aggregate_mset: "mset ds' = mset ds \<Longrightarrow> aggregate ds' = aggregate ds"
  unfolding aggregate_def
  by (simp add: sum_list_map_mset [of ds' ds])

lemma pass_counters:
  assumes "GetNetworkMetrics K L u w = Some (Return M, w')"
  shows "\<exists>n buffer es ds.
     events w' = events w @ [Sysctl_iflist2_size (Inr n), Sysctl_iflist2 n (Inr buffer)] @ es
     \<and> list_all scan_event es
     \<and> M = foldl add_data zero_metrics ds
     \<and> length ds = length (generic_offsets es)
     \<and> (if u then map (\<lambda>q. Some (fst q)) (queries es)
                     = map (\<lambda>p. map_option uint (ifm_index L buffer p)) (generic_offsets es)
                  \<and> map snd (queries es) = map Inr ds
         else queries es = []
              \<and> map Some ds = map (ifm_data L buffer) (generic_offsets es))"
proof -
  from GetNetworkMetrics_Return [OF assms] obtain n buffer os2 p where
    sc: "scan K L u buffer 0 zero_metrics
          (emit [Sysctl_iflist2_size (Inr n), Sysctl_iflist2 n (Inr buffer)] (w\<lparr>os := os2\<rparr>))
        = Some (Return (p, M), w')" by blast
  from scan_trace [OF sc] obtain es where
    e: "events w' = events w @ [Sysctl_iflist2_size (Inr n), Sysctl_iflist2 n (Inr buffer)] @ es"
    and inv: "pass_inv L u buffer zero_metrics es M"
    by (auto simp: emit_def)
  from inv obtain ds where
    se: "list_all scan_event es" and m: "M = foldl add_data zero_metrics ds" and
    c: "if u then map (\<lambda>q. Some (fst q)) (queries es)
                     = map (\<lambda>p. map_option uint (ifm_index L buffer p)) (generic_offsets es)
                  \<and> map snd (queries es) = map Inr ds
         else queries es = []
              \<and> map Some ds = map (ifm_data L buffer) (generic_offsets es)"
    unfolding pass_inv_def by blast
  have "length ds = length (generic_offsets es)"
  proof (cases u)
    case True
    with c have a: "map (\<lambda>q. Some (fst q)) (queries es)
                     = map (\<lambda>p. map_option uint (ifm_index L buffer p)) (generic_offsets es)"
      and b: "map snd (queries es) = map Inr ds" by simp_all
    from b have "length (queries es) = length ds" by (metis length_map)
    moreover from a have "length (queries es) = length (generic_offsets es)" by (metis length_map)
    ultimately show ?thesis by simp
  next
    case False
    with c have "map Some ds = map (ifm_data L buffer) (generic_offsets es)" by simp
    then show ?thesis by (metis length_map)
  qed
  with e se m c show ?thesis by blast
qed

lemma rd_local:
  assumes "q + n \<le> length r"
  shows "rd n (pre @ r @ post) (length pre + q) = rd n r q"
  using assms by (simp add: rd_def)

lemma rd_Some_bound: "rd n r q = Some v \<Longrightarrow> q + n \<le> length r"
  by (simp add: rd_def split: if_splits)

lemma rd_local':
  assumes "rd n r q = Some v"
  shows "rd n (pre @ r @ post) (length pre + q) = Some v"
  using rd_local [OF rd_Some_bound [OF assms]] assms by simp

lemma ifm_msglen_local:
  "ifm_msglen L r 0 = Some v \<Longrightarrow> ifm_msglen L (pre @ r @ post) (length pre) = Some v"
  unfolding ifm_msglen_def using rd_local' [of 2 r "off_msglen L" _ pre post]
  by (auto simp: add.assoc)

lemma ifm_type_local:
  "ifm_type L r 0 = Some v \<Longrightarrow> ifm_type L (pre @ r @ post) (length pre) = Some v"
  unfolding ifm_type_def using rd_local' [of 1 r "off_type L" _ pre post]
  by (auto simp: add.assoc)

lemma ifm_index_local:
  "ifm_index L r 0 = Some v \<Longrightarrow> ifm_index L (pre @ r @ post) (length pre) = Some v"
  unfolding ifm_index_def using rd_local' [of 2 r "off_index L" _ pre post]
  by (auto simp: add.assoc)

lemma rd64_local:
  "rd64 r q = Some v \<Longrightarrow> rd64 (pre @ r @ post) (length pre + q) = Some v"
  unfolding rd64_def using rd_local' [of 8 r q _ pre post] by auto

lemma ifm_data_local:
  assumes "ifm_data L r 0 = Some d"
  shows "ifm_data L (pre @ r @ post) (length pre) = Some d"
proof -
  from assms obtain a b c e where
    "rd64 r (off_ipackets L) = Some a" "rd64 r (off_opackets L) = Some b"
    "rd64 r (off_ibytes L) = Some c" "rd64 r (off_obytes L) = Some e"
    "d = \<lparr>ifi_ipackets = a, ifi_opackets = b, ifi_ibytes = c, ifi_obytes = e\<rparr>"
    by (auto simp: ifm_data_def split: option.splits)
  then show ?thesis
    by (simp add: ifm_data_def rd64_local)
qed

lemma well_formed_pos: "well_formed L r \<Longrightarrow> 0 < length r"
  by (auto simp: well_formed_def ifm_msglen_def rd_def split: option.splits if_splits)

lemma loop_body_well_formed:
  assumes wf: "well_formed L r"
  shows "(\<exists>c w' new. loop_body K L u (pre @ r @ post) (length pre) m w = (Exit c, w') \<and> u
             \<and> events w' = events w @ new
             \<and> visits new = [(length pre, is_generic L r)])
       \<or> (\<exists>m' w' new. loop_body K L u (pre @ r @ post) (length pre) m w
                         = (Return (length pre + length r, m'), w')
             \<and> events w' = events w @ new
             \<and> visits new = [(length pre, is_generic L r)])"
proof -
  from wf obtain len ty where
    len: "ifm_msglen L r 0 = Some len" "unat len = length r" and
    ty: "ifm_type L r 0 = Some ty" and
    g: "ty = RTM_IFINFO2 L \<Longrightarrow> ifm_index L r 0 \<noteq> None \<and> ifm_data L r 0 \<noteq> None"
    by (auto simp: well_formed_def split: option.splits)
  note len' = ifm_msglen_local [OF len(1), of pre post]
  note ty' = ifm_type_local [OF ty, of pre post]
  show ?thesis
  proof (cases "ty = RTM_IFINFO2 L")
    case False
    with len len' ty ty' show ?thesis
      by (simp add: loop_body_def emit_def is_generic_def)
  next
    case True
    from g [OF True] obtain idx d where
      idx: "ifm_index L r 0 = Some idx" and d: "ifm_data L r 0 = Some d" by auto
    note idx' = ifm_index_local [OF idx, of pre post]
    note d' = ifm_data_local [OF d, of pre post]
    show ?thesis
    proof (cases u)
      case False
      with True len len' ty ty' d' show ?thesis
        by (simp add: loop_body_def accumulate_def emit_def is_generic_def)
    next
      case u: True
      obtain rep os' where q: "sysctl_ifdata K (uint idx)
         (os (emit [Visit (length pre) True] w)) = (rep, os')" by force
      show ?thesis
      proof (cases rep)
        case (Inl err)
        with u True len len' ty ty' idx' q show ?thesis
          by (simp add: loop_body_def accumulate_def emit_def is_generic_def)
      next
        case (Inr d2)
        with u True len len' ty ty' idx' q show ?thesis
          by (simp add: loop_body_def accumulate_def emit_def is_generic_def)
      qed
    qed
  qed
qed

lemma scan_records:
  assumes "\<forall>r\<in>set rs. well_formed L r"
  shows "\<exists>res. scan K L u (pre @ concat rs) (length pre) m w = Some res
     \<and> fst res \<noteq> OutOfBounds
     \<and> (\<not> u \<longrightarrow> (\<exists>x. fst res = Return x))
     \<and> (\<forall>p M. fst res = Return (p, M) \<longrightarrow>
           p = length (pre @ concat rs)
           \<and> (\<exists>es. events (snd res) = events w @ es
                \<and> visits es = expected_visits L (length pre) rs))
     \<and> (\<forall>c. fst res = Exit c \<longrightarrow>
           u \<and> (\<exists>es k. events (snd res) = events w @ es
                \<and> visits es = take k (expected_visits L (length pre) rs)))"
  using assms
proof (induction rs arbitrary: pre m w)
  case Nil
  have "scan K L u pre (length pre) m w = Some (Return (length pre, m), w)"
    by (subst scan.simps) simp
  then show ?case by simp
next
  case (Cons r rs)
  then have wf: "well_formed L r" and wfs: "\<forall>r\<in>set rs. well_formed L r" by simp_all
  have lt: "length pre < length (pre @ r @ concat rs)"
    using well_formed_pos [OF wf] by simp
  from loop_body_well_formed [OF wf, of K u pre "concat rs" m w]
  show ?case
  proof (elim disjE exE conjE)
    fix c w' new
    assume lb: "loop_body K L u (pre @ r @ concat rs) (length pre) m w = (Exit c, w')" and u
      and ev: "events w' = events w @ new"
      and vs: "visits new = [(length pre, is_generic L r)]"
    have sc: "scan K L u (pre @ r @ concat rs) (length pre) m w = Some (Exit c, w')"
      using lt lb by (subst scan.simps) simp
    have "\<exists>es k. events w' = events w @ es
            \<and> visits es = take k (expected_visits L (length pre) (r # rs))"
      using ev vs by (intro exI [of _ new] exI [of _ 1]) simp
    with sc \<open>u\<close> show ?thesis by simp
  next
    fix m' w' new
    assume lb: "loop_body K L u (pre @ r @ concat rs) (length pre) m w
                  = (Return (length pre + length r, m'), w')"
      and ev: "events w' = events w @ new"
      and vs: "visits new = [(length pre, is_generic L r)]"
    have unfold: "scan K L u (pre @ r @ concat rs) (length pre) m w
          = scan K L u ((pre @ r) @ concat rs) (length (pre @ r)) m' w'"
      using lt lb by (subst scan.simps) simp
    from Cons.IH [OF wfs, of "pre @ r" m' w'] obtain res where
      r1: "scan K L u ((pre @ r) @ concat rs) (length (pre @ r)) m' w' = Some res"
      and r2: "fst res \<noteq> OutOfBounds"
      and r3: "\<not> u \<longrightarrow> (\<exists>x. fst res = Return x)"
      and r4: "\<forall>p M. fst res = Return (p, M) \<longrightarrow>
           p = length ((pre @ r) @ concat rs)
           \<and> (\<exists>es. events (snd res) = events w' @ es
                \<and> visits es = expected_visits L (length (pre @ r)) rs)"
      and r5: "\<forall>c. fst res = Exit c \<longrightarrow>
           u \<and> (\<exists>es k. events (snd res) = events w' @ es
                \<and> visits es = take k (expected_visits L (length (pre @ r)) rs))"
      by blast
    have "\<forall>c. fst res = Exit c \<longrightarrow>
           u \<and> (\<exists>es k. events (snd res) = events w @ es
                \<and> visits es = take k (expected_visits L (length pre) (r # rs)))"
    proof (intro allI impI)
      fix c assume "fst res = Exit c"
      with r5 obtain es k where u and "events (snd res) = events w' @ es"
        "visits es = take k (expected_visits L (length (pre @ r)) rs)" by blast
      with ev vs show "u \<and> (\<exists>es k. events (snd res) = events w @ es
                \<and> visits es = take k (expected_visits L (length pre) (r # rs)))"
        by (intro conjI exI [of _ "new @ es"] exI [of _ "Suc k"]) simp_all
    qed
    moreover
    have "\<forall>p M. fst res = Return (p, M) \<longrightarrow>
           p = length (pre @ concat (r # rs))
           \<and> (\<exists>es. events (snd res) = events w @ es
                \<and> visits es = expected_visits L (length pre) (r # rs))"
    proof (intro allI impI)
      fix p M assume "fst res = Return (p, M)"
      with r4 obtain es where "p = length ((pre @ r) @ concat rs)"
        "events (snd res) = events w' @ es"
        "visits es = expected_visits L (length (pre @ r)) rs" by blast
      with ev vs show "p = length (pre @ concat (r # rs))
           \<and> (\<exists>es. events (snd res) = events w @ es
                \<and> visits es = expected_visits L (length pre) (r # rs))"
        by (intro conjI exI [of _ "new @ es"]) simp_all
    qed
    ultimately show ?thesis using unfold r1 r2 r3 by simp
  qed
qed

lemma loop_body_Return_cursor:
  assumes "loop_body K L u buf p m w = (Return (p', m'), w')"
  shows "\<exists>len. ifm_msglen L buf p = Some len \<and> p' = p + unat len"
  using assms
  by (auto simp: loop_body_def split: option.splits prod.splits outcome.splits if_splits)

lemma scan_returns_reached:
  assumes pos: "\<forall>p m w. reaches K L u buf m0 w0 p m w \<longrightarrow> p < length buf
                  \<longrightarrow> ifm_msglen L buf p \<noteq> Some 0"
  shows "reaches K L u buf m0 w0 p m w \<Longrightarrow> \<exists>res. scan K L u buf p m w = Some res"
proof (induction "length buf - p" arbitrary: p m w rule: less_induct)
  case less
  show ?case
  proof (cases "p < length buf")
    case False
    then have "scan K L u buf p m w = Some (Return (p, m), w)"
      by (subst scan.simps) simp
    then show ?thesis by blast
  next
    case True
    obtain r w1 where lb: "loop_body K L u buf p m w = (r, w1)" by force
    show ?thesis
    proof (cases r)
      case (Return x)
      obtain p' m' where x: "x = (p', m')" by force
      from loop_body_Return_cursor [of K L u buf p m w p' m' w1] lb Return x
      obtain len where len: "ifm_msglen L buf p = Some len" "p' = p + unat len" by auto
      from pos less.prems True len have "len \<noteq> 0" by auto
      then have "0 < unat len" by (simp add: unat_gt_0)
      with len True have dec: "length buf - p' < length buf - p" by simp
      have v: "reaches K L u buf m0 w0 p' m' w1"
        using reaches.turn [OF less.prems True] lb Return x by simp
      from less.hyps [OF dec v] obtain res where
        "scan K L u buf p' m' w1 = Some res" by blast
      moreover have "scan K L u buf p m w = scan K L u buf p' m' w1"
        using True lb Return x by (subst scan.simps) simp
      ultimately show ?thesis by simp
    next
      case (Exit c)
      with True lb have "scan K L u buf p m w = Some (Exit c, w1)"
        by (subst scan.simps) simp
      then show ?thesis by blast
    next
      case OutOfBounds
      with True lb have "scan K L u buf p m w = Some (OutOfBounds, w1)"
        by (subst scan.simps) simp
      then show ?thesis by blast
    qed
  qed
qed

lemma scan_stuck:
  assumes lt: "p < length buf"
      and ty: "ifm_type L buf p = Some ty" "ty \<noteq> RTM_IFINFO2 L"
      and len: "ifm_msglen L buf p = Some 0"
  shows "scan K L u buf p m w = None"
proof (rule ccontr)
  assume "scan K L u buf p m w \<noteq> None"
  then obtain y where run: "scan K L u buf p m w = Some y" by blast
  let ?I = "\<lambda>q (m1 :: NetworkMetrics) (w1 :: 'a world). q = p"
  have body: "\<And>m1 w1. loop_body K L u buf p m1 w1 = (Return (p, m1), emit [Visit p False] w1)"
    using ty len by (simp add: loop_body_def)
  have step: "\<forall>q m1 w1 q' m1' w1'. ?I q m1 w1 \<and> q < length buf \<and>
        loop_body K L u buf q m1 w1 = (Return (q', m1'), w1') \<longrightarrow> ?I q' m1' w1'"
    using body by auto
  from scan_rule_aux [of K L u buf p m w y ?I, OF run _ step]
  obtain m1 w1 where
    "(length buf \<le> p \<and> y = (Return (p, m1), w1)) \<or>
     (p < length buf \<and> loop_body K L u buf p m1 w1 = y \<and> (\<forall>x. fst y \<noteq> Return x))"
    by auto
  with lt have "loop_body K L u buf p m1 w1 = y" and no: "\<forall>x. fst y \<noteq> Return x" by auto
  with body [of m1 w1] have "fst y = Return (p, m1)" by simp
  with no show False by blast
qed

lemma scan_event_calm: "scan_event e \<Longrightarrow> \<not> failed e \<and> \<not> is_Printf e"
  by (cases e) auto

lemma pass_inv_calm: "pass_inv L u buf m0 es m \<Longrightarrow> \<forall>x\<in>set es. \<not> failed x \<and> \<not> is_Printf x"
  by (auto simp: pass_inv_def list_all_iff scan_event_calm)

lemma GetNetworkMetrics_trace:
  assumes "GetNetworkMetrics K L u w = Some (r, w')"
  shows "\<exists>es. events w' = events w @ es \<and>
     (r = Exit 1 \<longrightarrow>
        (\<exists>es0 e err. es = es0 @ [e, Fprintf_stderr ''sysctl: %s\<newline>'' [err]]
           \<and> (e = Sysctl_iflist2_size (Inl err) \<or> (\<exists>n. e = Sysctl_iflist2 n (Inl err))
                \<or> (\<exists>i. e = Sysctl_ifdata i (Inl err)))
           \<and> (\<forall>x\<in>set es0. \<not> failed x \<and> \<not> is_Printf x)))
     \<and> (r \<noteq> Exit 1 \<longrightarrow>
          (\<forall>c. r \<noteq> Exit c) \<and> (\<forall>x\<in>set es. \<not> failed x \<and> \<not> is_Printf x))"
  using fetch_cases [of K w]
proof (elim disjE exE)
  fix err os1
  assume "fetch K w = (Exit 1, emit [Sysctl_iflist2_size (Inl err),
        Fprintf_stderr ''sysctl: %s\<newline>'' [err]] (w\<lparr>os := os1\<rparr>))"
  with assms have "r = Exit 1" "events w' = events w @ [] @ [Sysctl_iflist2_size (Inl err),
        Fprintf_stderr ''sysctl: %s\<newline>'' [err]]"
    by (auto simp: GetNetworkMetrics_def emit_def)
  then show ?thesis by auto
next
  fix n err os2
  assume "fetch K w = (Exit 1, emit [Sysctl_iflist2_size (Inr n),
        Sysctl_iflist2 n (Inl err), Fprintf_stderr ''sysctl: %s\<newline>'' [err]] (w\<lparr>os := os2\<rparr>))"
  with assms have "r = Exit 1" "events w' = events w @ [Sysctl_iflist2_size (Inr n)] @
       [Sysctl_iflist2 n (Inl err), Fprintf_stderr ''sysctl: %s\<newline>'' [err]]"
    by (auto simp: GetNetworkMetrics_def emit_def)
  then show ?thesis
    by (intro exI [of _ "[Sysctl_iflist2_size (Inr n)] @
       [Sysctl_iflist2 n (Inl err), Fprintf_stderr ''sysctl: %s\<newline>'' [err]]"])
       (auto intro!: exI [of _ "[Sysctl_iflist2_size (Inr n)]"])
next
  fix n buffer os2
  let ?w1 = "emit [Sysctl_iflist2_size (Inr n), Sysctl_iflist2 n (Inr buffer)] (w\<lparr>os := os2\<rparr>)"
  let ?pre = "[Sysctl_iflist2_size (Inr n), Sysctl_iflist2 n (Inr buffer)]"
  assume f: "fetch K w = (Return buffer, ?w1)"
  with assms obtain r1 where
    sc: "scan K L u buffer 0 zero_metrics ?w1 = Some (r1, w')" and
    rr: "r = (case r1 of Return x \<Rightarrow> Return (snd x) | Exit c \<Rightarrow> Exit c | OutOfBounds \<Rightarrow> OutOfBounds)"
    by (auto simp: GetNetworkMetrics_def split: option.splits outcome.splits prod.splits)
  from scan_trace [OF sc] obtain es where
    e: "events w' = events w @ ?pre @ es" and
    c: "case r1 of
        Return x \<Rightarrow> length buffer \<le> fst x \<and> pass_inv L u buffer zero_metrics es (snd x)
      | Exit c \<Rightarrow> c = 1 \<and> u \<and> (\<exists>es0 m q idx err.
            es = es0 @ [Visit q True, Sysctl_ifdata (uint idx) (Inl err),
                        Fprintf_stderr ''sysctl: %s\<newline>'' [err]]
            \<and> pass_inv L u buffer zero_metrics es0 m \<and> ifm_index L buffer q = Some idx)
      | OutOfBounds \<Rightarrow> list_all scan_event es \<and> (\<not> u \<longrightarrow> queries es = [])"
    by (auto simp: emit_def)
  show ?thesis
  proof (cases r1)
    case (Return x)
    with c rr e show ?thesis
      by (intro exI [of _ "?pre @ es"]) (auto dest: pass_inv_calm)
  next
    case OutOfBounds
    with c rr e show ?thesis
      by (intro exI [of _ "?pre @ es"]) (auto simp: list_all_iff scan_event_calm)
  next
    case (Exit c1)
    with c obtain es0 m q and idx :: u16 and err where
      "c1 = 1" and es: "es = es0 @ [Visit q True, Sysctl_ifdata (uint idx) (Inl err),
                        Fprintf_stderr ''sysctl: %s\<newline>'' [err]]"
      and inv: "pass_inv L u buffer zero_metrics es0 m" by auto
    let ?es0 = "?pre @ es0 @ [Visit q True]"
    let ?e = "Sysctl_ifdata (uint idx) (Inl err)"
    let ?d = "Fprintf_stderr ''sysctl: %s\<newline>'' [err]"
    from pass_inv_calm [OF inv] have calm: "\<forall>x\<in>set ?es0. \<not> failed x \<and> \<not> is_Printf x"
      by auto
    from Exit rr \<open>c1 = 1\<close> have r: "r = Exit 1" by simp
    from e es have ev: "events w' = events w @ (?es0 @ [?e, ?d])" by simp
    have "\<exists>es0a e erra. ?es0 @ [?e, ?d] = es0a @ [e, Fprintf_stderr ''sysctl: %s\<newline>'' [erra]]
           \<and> (e = Sysctl_iflist2_size (Inl erra) \<or> (\<exists>n. e = Sysctl_iflist2 n (Inl erra))
                \<or> (\<exists>i. e = Sysctl_ifdata i (Inl erra)))
           \<and> (\<forall>x\<in>set es0a. \<not> failed x \<and> \<not> is_Printf x)"
    proof (intro exI conjI)
      show "?es0 @ [?e, ?d] = ?es0 @ [?e, ?d]" by (rule refl)
      show "?e = Sysctl_iflist2_size (Inl err) \<or> (\<exists>n. ?e = Sysctl_iflist2 n (Inl err))
                \<or> (\<exists>i. ?e = Sysctl_ifdata i (Inl err))" by blast
      show "\<forall>x\<in>set ?es0. \<not> failed x \<and> \<not> is_Printf x" by (rule calm)
    qed
    with r ev show ?thesis by blast
  qed
qed

lemma report_calm:
  "\<forall>x\<in>set (report prev cur @ input_overflow prev cur @ output_overflow prev cur
              @ [Printf ''\<newline>\<newline>'' []]). \<not> failed x"
  by (auto simp: report_def input_overflow_def output_overflow_def)

lemma iteration_trace:
  assumes "iteration K L u prev w = Some (r, w')"
  shows "\<exists>es. events w' = events w @ es \<and>
     ((\<exists>x\<in>set es. failed x) \<longrightarrow>
        r = Exit 1
        \<and> (\<exists>es0 e err. es = es0 @ [e, Fprintf_stderr ''sysctl: %s\<newline>'' [err]]
             \<and> (e = Sysctl_iflist2_size (Inl err) \<or> (\<exists>n. e = Sysctl_iflist2 n (Inl err))
                  \<or> (\<exists>i. e = Sysctl_ifdata i (Inl err)))
             \<and> (\<forall>x\<in>set es0. \<not> failed x))
        \<and> (\<forall>x\<in>set es. \<not> is_Printf x))"
proof -
  from assms obtain r0 w1 where
    g: "GetNetworkMetrics K L u (emit [Sleep 1] w) = Some (r0, w1)"
    by (auto simp: iteration_def split: option.splits)
  from GetNetworkMetrics_trace [OF g] obtain es1 where
    e1: "events w1 = events w @ [Sleep 1] @ es1" and
    ex: "r0 = Exit 1 \<longrightarrow>
        (\<exists>es0 e err. es1 = es0 @ [e, Fprintf_stderr ''sysctl: %s\<newline>'' [err]]
           \<and> (e = Sysctl_iflist2_size (Inl err) \<or> (\<exists>n. e = Sysctl_iflist2 n (Inl err))
                \<or> (\<exists>i. e = Sysctl_ifdata i (Inl err)))
           \<and> (\<forall>x\<in>set es0. \<not> failed x \<and> \<not> is_Printf x))" and
    nx: "r0 \<noteq> Exit 1 \<longrightarrow>
          (\<forall>c. r0 \<noteq> Exit c) \<and> (\<forall>x\<in>set es1. \<not> failed x \<and> \<not> is_Printf x)"
    by (auto simp: emit_def)
  show ?thesis
  proof (cases "r0 = Exit 1")
    case True
    with assms g have rw: "r = Exit 1" "w' = w1" by (simp_all add: iteration_def)
    from True ex obtain es0 e err where
      s: "es1 = es0 @ [e, Fprintf_stderr ''sysctl: %s\<newline>'' [err]]" and
      k: "e = Sysctl_iflist2_size (Inl err) \<or> (\<exists>n. e = Sysctl_iflist2 n (Inl err))
                \<or> (\<exists>i. e = Sysctl_ifdata i (Inl err))" and
      c: "\<forall>x\<in>set es0. \<not> failed x \<and> \<not> is_Printf x" by blast
    have "\<exists>es0a e erra. [Sleep 1] @ es1 = es0a @ [e, Fprintf_stderr ''sysctl: %s\<newline>'' [erra]]
             \<and> (e = Sysctl_iflist2_size (Inl erra) \<or> (\<exists>n. e = Sysctl_iflist2 n (Inl erra))
                  \<or> (\<exists>i. e = Sysctl_ifdata i (Inl erra)))
             \<and> (\<forall>x\<in>set es0a. \<not> failed x)"
    proof (intro exI conjI)
      show "[Sleep 1] @ es1 = ([Sleep 1] @ es0) @ [e, Fprintf_stderr ''sysctl: %s\<newline>'' [err]]"
        using s by simp
      show "e = Sysctl_iflist2_size (Inl err) \<or> (\<exists>n. e = Sysctl_iflist2 n (Inl err))
                  \<or> (\<exists>i. e = Sysctl_ifdata i (Inl err))" by (rule k)
      show "\<forall>x\<in>set ([Sleep 1] @ es0). \<not> failed x" using c by simp
    qed
    moreover have "\<forall>x\<in>set ([Sleep 1] @ es1). \<not> is_Printf x"
      using s c k by auto
    moreover have "events w' = events w @ ([Sleep 1] @ es1)" using e1 rw by simp
    ultimately show ?thesis using rw by blast
  next
    case False
    with nx have nc: "\<forall>c. r0 \<noteq> Exit c" and calm: "\<forall>x\<in>set es1. \<not> failed x" by auto
    show ?thesis
    proof (cases r0)
      case (Return cur)
      with assms g have "w' = emit (report prev cur @ input_overflow prev cur
            @ output_overflow prev cur @ [Printf ''\<newline>\<newline>'' []]) w1"
        by (simp add: iteration_def)
      with e1 have ev: "events w' = events w @ ([Sleep 1] @ es1 @ (report prev cur
            @ input_overflow prev cur @ output_overflow prev cur @ [Printf ''\<newline>\<newline>'' []]))"
        by (simp add: emit_def)
      have "\<not> (\<exists>x\<in>set ([Sleep 1] @ es1 @ (report prev cur
            @ input_overflow prev cur @ output_overflow prev cur @ [Printf ''\<newline>\<newline>'' []])). failed x)"
        using calm report_calm [of prev cur] by auto
      with ev show ?thesis by blast
    next
      case (Exit c)
      with nc show ?thesis by blast
    next
      case OutOfBounds
      with assms g have "w' = w1" by (simp add: iteration_def)
      with e1 have ev: "events w' = events w @ ([Sleep 1] @ es1)" by simp
      have "\<not> (\<exists>x\<in>set ([Sleep 1] @ es1). failed x)" using calm by simp
      with ev show ?thesis by blast
    qed
  qed
qed

lemma no_failure_append:
  assumes a: "\<forall>x\<in>set es1. \<not> failed x"
      and b: "(\<exists>x\<in>set es2. failed x) \<longrightarrow>
                r = Exit 1 \<and> (\<exists>es0 e err. es2 = es0 @ [e, Fprintf_stderr ''sysctl: %s\<newline>'' [err]]
                      \<and> failed e \<and> (\<forall>x\<in>set es0. \<not> failed x))"
  shows "(\<exists>x\<in>set (es1 @ es2). failed x) \<longrightarrow>
                r = Exit 1 \<and> (\<exists>es0 e err. es1 @ es2 = es0 @ [e, Fprintf_stderr ''sysctl: %s\<newline>'' [err]]
                      \<and> failed e \<and> (\<forall>x\<in>set es0. \<not> failed x))"
proof
  assume "\<exists>x\<in>set (es1 @ es2). failed x"
  with a have "\<exists>x\<in>set es2. failed x" by auto
  with b obtain es0 e err where
    r: "r = Exit 1" and s: "es2 = es0 @ [e, Fprintf_stderr ''sysctl: %s\<newline>'' [err]]"
    and f: "failed e" and c: "\<forall>x\<in>set es0. \<not> failed x" by blast
  have "es1 @ es2 = (es1 @ es0) @ [e, Fprintf_stderr ''sysctl: %s\<newline>'' [err]]"
    using s by simp
  moreover have "\<forall>x\<in>set (es1 @ es0). \<not> failed x" using a c by auto
  ultimately show "r = Exit 1 \<and> (\<exists>es0 e err. es1 @ es2 = es0 @ [e, Fprintf_stderr ''sysctl: %s\<newline>'' [err]]
                      \<and> failed e \<and> (\<forall>x\<in>set es0. \<not> failed x))"
    using r f by blast
qed

lemma iteration_failure:
  assumes "iteration K L u prev w = Some (r, w')"
  shows "\<exists>es. events w' = events w @ es \<and>
     ((\<exists>x\<in>set es. failed x) \<longrightarrow>
        r = Exit 1 \<and> (\<exists>es0 e err. es = es0 @ [e, Fprintf_stderr ''sysctl: %s\<newline>'' [err]]
                      \<and> failed e \<and> (\<forall>x\<in>set es0. \<not> failed x)))"
proof -
  from iteration_trace [OF assms] obtain es where
    e: "events w' = events w @ es" and
    c: "(\<exists>x\<in>set es. failed x) \<longrightarrow>
        r = Exit 1
        \<and> (\<exists>es0 e err. es = es0 @ [e, Fprintf_stderr ''sysctl: %s\<newline>'' [err]]
             \<and> (e = Sysctl_iflist2_size (Inl err) \<or> (\<exists>n. e = Sysctl_iflist2 n (Inl err))
                  \<or> (\<exists>i. e = Sysctl_ifdata i (Inl err)))
             \<and> (\<forall>x\<in>set es0. \<not> failed x))
        \<and> (\<forall>x\<in>set es. \<not> is_Printf x)" by blast
  have "(\<exists>x\<in>set es. failed x) \<longrightarrow>
        r = Exit 1 \<and> (\<exists>es0 e err. es = es0 @ [e, Fprintf_stderr ''sysctl: %s\<newline>'' [err]]
                      \<and> failed e \<and> (\<forall>x\<in>set es0. \<not> failed x))"
  proof
    assume "\<exists>x\<in>set es. failed x"
    with c obtain es0 e err where "r = Exit 1"
      "es = es0 @ [e, Fprintf_stderr ''sysctl: %s\<newline>'' [err]]"
      "e = Sysctl_iflist2_size (Inl err) \<or> (\<exists>n. e = Sysctl_iflist2 n (Inl err))
                  \<or> (\<exists>i. e = Sysctl_ifdata i (Inl err))"
      "\<forall>x\<in>set es0. \<not> failed x" by blast
    moreover from this have "failed e" by auto
    ultimately show "r = Exit 1 \<and> (\<exists>es0 e err. es = es0 @ [e, Fprintf_stderr ''sysctl: %s\<newline>'' [err]]
                      \<and> failed e \<and> (\<forall>x\<in>set es0. \<not> failed x))" by blast
  qed
  with e show ?thesis by blast
qed

lemma turns_failure:
  "turns K L n prev w = Some (r, w') \<Longrightarrow>
   \<exists>es. events w' = events w @ es \<and>
     ((\<exists>x\<in>set es. failed x) \<longrightarrow>
        r = Exit 1 \<and> (\<exists>es0 e err. es = es0 @ [e, Fprintf_stderr ''sysctl: %s\<newline>'' [err]]
                      \<and> failed e \<and> (\<forall>x\<in>set es0. \<not> failed x)))"
proof (induction n arbitrary: prev w)
  case 0
  then have "events w' = events w @ []" by simp
  then show ?case by (intro exI [of _ "[]"]) simp
next
  case (Suc n)
  from Suc.prems obtain r1 w1 where it: "iteration K L True prev w = Some (r1, w1)"
    by (auto split: option.splits)
  from iteration_failure [OF it] obtain es1 where
    e1: "events w1 = events w @ es1" and
    c1: "(\<exists>x\<in>set es1. failed x) \<longrightarrow>
        r1 = Exit 1 \<and> (\<exists>es0 e err. es1 = es0 @ [e, Fprintf_stderr ''sysctl: %s\<newline>'' [err]]
                      \<and> failed e \<and> (\<forall>x\<in>set es0. \<not> failed x))" by blast
  show ?case
  proof (cases r1)
    case (Return cur)
    with c1 have calm: "\<forall>x\<in>set es1. \<not> failed x" by auto
    from Suc.prems it Return have "turns K L n cur w1 = Some (r, w')" by simp
    from Suc.IH [OF this] obtain es2 where
      e2: "events w' = events w1 @ es2" and
      c2: "(\<exists>x\<in>set es2. failed x) \<longrightarrow>
        r = Exit 1 \<and> (\<exists>es0 e err. es2 = es0 @ [e, Fprintf_stderr ''sysctl: %s\<newline>'' [err]]
                      \<and> failed e \<and> (\<forall>x\<in>set es0. \<not> failed x))" by blast
    from e1 e2 have "events w' = events w @ (es1 @ es2)" by simp
    with no_failure_append [OF calm c2] show ?thesis by blast
  next
    case (Exit c)
    with Suc.prems it have "r = r1" "w' = w1" by simp_all
    with e1 c1 show ?thesis by blast
  next
    case OutOfBounds
    with Suc.prems it have "r = r1" "w' = w1" by simp_all
    with e1 c1 show ?thesis by blast
  qed
qed

lemma GetNetworkMetrics_failure:
  assumes "GetNetworkMetrics K L u w = Some (r, w')"
  shows "\<exists>es. events w' = events w @ es \<and>
     (r = Exit 1 \<longrightarrow> (\<exists>es0 e err. es = es0 @ [e, Fprintf_stderr ''sysctl: %s\<newline>'' [err]]
                      \<and> failed e \<and> (\<forall>x\<in>set es0. \<not> failed x)))
     \<and> (r \<noteq> Exit 1 \<longrightarrow> (\<forall>x\<in>set es. \<not> failed x))"
proof -
  from GetNetworkMetrics_trace [OF assms] obtain es where
    e: "events w' = events w @ es" and
    a: "r = Exit 1 \<longrightarrow>
        (\<exists>es0 e err. es = es0 @ [e, Fprintf_stderr ''sysctl: %s\<newline>'' [err]]
           \<and> (e = Sysctl_iflist2_size (Inl err) \<or> (\<exists>n. e = Sysctl_iflist2 n (Inl err))
                \<or> (\<exists>i. e = Sysctl_ifdata i (Inl err)))
           \<and> (\<forall>x\<in>set es0. \<not> failed x \<and> \<not> is_Printf x))" and
    b: "r \<noteq> Exit 1 \<longrightarrow>
          (\<forall>c. r \<noteq> Exit c) \<and> (\<forall>x\<in>set es. \<not> failed x \<and> \<not> is_Printf x)" by blast
  have "r = Exit 1 \<longrightarrow> (\<exists>es0 e err. es = es0 @ [e, Fprintf_stderr ''sysctl: %s\<newline>'' [err]]
                      \<and> failed e \<and> (\<forall>x\<in>set es0. \<not> failed x))"
  proof
    assume "r = Exit 1"
    with a obtain es0 e err where
      "es = es0 @ [e, Fprintf_stderr ''sysctl: %s\<newline>'' [err]]"
      "e = Sysctl_iflist2_size (Inl err) \<or> (\<exists>n. e = Sysctl_iflist2 n (Inl err))
                \<or> (\<exists>i. e = Sysctl_ifdata i (Inl err))"
      "\<forall>x\<in>set es0. \<not> failed x" by blast
    moreover from this have "failed e" by auto
    ultimately show "\<exists>es0 e err. es = es0 @ [e, Fprintf_stderr ''sysctl: %s\<newline>'' [err]]
                      \<and> failed e \<and> (\<forall>x\<in>set es0. \<not> failed x)" by blast
  qed
  with e b show ?thesis by blast
qed

lemma main_failure:
  assumes "main K L n w = Some (r, w')"
  shows "\<exists>es. events w' = events w @ es \<and>
     ((\<exists>x\<in>set es. failed x) \<longrightarrow>
        r = Exit 1 \<and> (\<exists>es0 e err. es = es0 @ [e, Fprintf_stderr ''sysctl: %s\<newline>'' [err]]
                      \<and> failed e \<and> (\<forall>x\<in>set es0. \<not> failed x)))"
proof -
  from assms obtain r1 w1 where g: "GetNetworkMetrics K L True w = Some (r1, w1)"
    by (auto simp: main_def split: option.splits)
  from GetNetworkMetrics_failure [OF g] obtain es1 where
    e1: "events w1 = events w @ es1" and
    a: "r1 = Exit 1 \<longrightarrow> (\<exists>es0 e err. es1 = es0 @ [e, Fprintf_stderr ''sysctl: %s\<newline>'' [err]]
                      \<and> failed e \<and> (\<forall>x\<in>set es0. \<not> failed x))" and
    b: "r1 \<noteq> Exit 1 \<longrightarrow> (\<forall>x\<in>set es1. \<not> failed x)" by blast
  show ?thesis
  proof (cases r1)
    case (Return prev)
    with b have calm: "\<forall>x\<in>set es1. \<not> failed x" by simp
    from assms g Return have "turns K L n prev w1 = Some (r, w')" by (simp add: main_def)
    from turns_failure [OF this] obtain es2 where
      e2: "events w' = events w1 @ es2" and
      c2: "(\<exists>x\<in>set es2. failed x) \<longrightarrow>
        r = Exit 1 \<and> (\<exists>es0 e err. es2 = es0 @ [e, Fprintf_stderr ''sysctl: %s\<newline>'' [err]]
                      \<and> failed e \<and> (\<forall>x\<in>set es0. \<not> failed x))" by blast
    from e1 e2 have "events w' = events w @ (es1 @ es2)" by simp
    with no_failure_append [OF calm c2] show ?thesis by blast
  next
    case (Exit c)
    with assms g have rw: "r = r1" "w' = w1" by (simp_all add: main_def)
    show ?thesis
    proof (cases "c = 1")
      case True
      with Exit a rw e1 show ?thesis by blast
    next
      case False
      with Exit b rw e1 show ?thesis by auto
    qed
  next
    case OutOfBounds
    with assms g have "r = r1" "w' = w1" by (simp_all add: main_def)
    with OutOfBounds b e1 show ?thesis by auto
  qed
qed

lemma scan_from_reached:
  "reaches K L u buf mi wi p m w \<Longrightarrow> scan K L u buf 0 mi wi = scan K L u buf p m w"
proof (induction rule: reaches.induct)
  case start
  show ?case by (rule refl)
next
  case (turn p m w p' m' w')
  have "scan K L u buf p m w = scan K L u buf p' m' w'"
    using turn.hyps(2,3) by (subst scan.simps) simp
  with turn.IH show ?case by simp
qed

lemma loop_body_query_fails:
  assumes "ifm_type L buf p = Some (RTM_IFINFO2 L)"
      and "ifm_index L buf p = Some idx"
      and "sysctl_ifdata K (uint idx) (os w) = (Inl err, os')"
  shows "loop_body K L True buf p m w =
           (Exit 1, emit [Visit p True, Sysctl_ifdata (uint idx) (Inl err),
                          Fprintf_stderr ''sysctl: %s\<newline>'' [err]] (w\<lparr>os := os'\<rparr>))"
  using assms by (simp add: loop_body_def accumulate_def emit_def)

lemma fetch_size_fails:
  assumes "sysctl_iflist2_size K (os w) = (Inl err, os1)"
  shows "fetch K w = (Exit 1, emit [Sysctl_iflist2_size (Inl err),
                                    Fprintf_stderr ''sysctl: %s\<newline>'' [err]] (w\<lparr>os := os1\<rparr>))"
  using assms by (simp add: fetch_def)

lemma fetch_read_fails:
  assumes "sysctl_iflist2_size K (os w) = (Inr n, os1)"
      and "sysctl_iflist2 K n os1 = (Inl err, os2)"
  shows "fetch K w = (Exit 1, emit [Sysctl_iflist2_size (Inr n), Sysctl_iflist2 n (Inl err),
                                    Fprintf_stderr ''sysctl: %s\<newline>'' [err]] (w\<lparr>os := os2\<rparr>))"
  using assms by (simp add: fetch_def)

lemma fetch_succeeds:
  assumes "sysctl_iflist2_size K (os w) = (Inr n, os1)"
      and "sysctl_iflist2 K n os1 = (Inr buffer, os2)"
  shows "fetch K w = (Return buffer, emit [Sysctl_iflist2_size (Inr n),
                                           Sysctl_iflist2 n (Inr buffer)] (w\<lparr>os := os2\<rparr>))"
  using assms by (simp add: fetch_def)

lemma pass_fetch_exits:
  "fetch K w = (Exit c, w1) \<Longrightarrow> GetNetworkMetrics K L u w = Some (Exit c, w1)"
  by (simp add: GetNetworkMetrics_def)

lemma pass_query_exits:
  assumes f: "fetch K w = (Return buffer, w1)"
      and r: "reaches K L True buffer zero_metrics w1 p m w2"
      and lt: "p < length buffer"
      and ty: "ifm_type L buffer p = Some (RTM_IFINFO2 L)"
      and ix: "ifm_index L buffer p = Some idx"
      and q: "sysctl_ifdata K (uint idx) (os w2) = (Inl err, os')"
  shows "GetNetworkMetrics K L True w =
           Some (Exit 1, emit [Visit p True, Sysctl_ifdata (uint idx) (Inl err),
                               Fprintf_stderr ''sysctl: %s\<newline>'' [err]] (w2\<lparr>os := os'\<rparr>))"
proof -
  have "scan K L True buffer 0 zero_metrics w1 = scan K L True buffer p m w2"
    using r by (rule scan_from_reached)
  also have "\<dots> = Some (Exit 1, emit [Visit p True, Sysctl_ifdata (uint idx) (Inl err),
                               Fprintf_stderr ''sysctl: %s\<newline>'' [err]] (w2\<lparr>os := os'\<rparr>))"
    using lt loop_body_query_fails [OF ty ix q, of m] by (subst scan.simps) simp
  finally show ?thesis using f by (simp add: GetNetworkMetrics_def)
qed

lemma iteration_exits:
  "GetNetworkMetrics K L u (emit [Sleep 1] w) = Some (Exit c, w') \<Longrightarrow>
   iteration K L u prev w = Some (Exit c, w')"
  by (simp add: iteration_def)

lemma turns_exits:
  "GetNetworkMetrics K L True (emit [Sleep 1] w) = Some (Exit c, w') \<Longrightarrow>
   turns K L (Suc n) prev w = Some (Exit c, w')"
  by (simp add: iteration_def)

lemma main_exits:
  "GetNetworkMetrics K L True w = Some (Exit c, w') \<Longrightarrow> main K L n w = Some (Exit c, w')"
  by (simp add: main_def)

lemma os_emit: "os (emit es w) = os w"
  by (simp add: emit_def)

lemma expected_visits_length [simp]: "length (expected_visits L p rs) = length rs"
  by (induction rs arbitrary: p) simp_all

lemma expected_visits_nth:
  "i < length rs \<Longrightarrow>
   expected_visits L p rs ! i = (p + length (concat (take i rs)), is_generic L (rs ! i))"
proof (induction rs arbitrary: p i)
  case Nil
  then show ?case by simp
next
  case (Cons r rs)
  show ?case
  proof (cases i)
    case 0
    then show ?thesis by simp
  next
    case (Suc j)
    with Cons.prems have "j < length rs" by simp
    from Cons.IH [OF this, of "p + length r"] Suc show ?thesis by (simp add: add.assoc)
  qed
qed

lemma expected_visits_map:
  "expected_visits L 0 rs =
     map (\<lambda>i. (length (concat (take i rs)), ifm_type L (rs ! i) 0 = Some (RTM_IFINFO2 L)))
       [0..<length rs]"
  by (rule nth_equalityI) (simp_all add: expected_visits_nth is_generic_def)

lemma pass_without_queries:
  assumes "GetNetworkMetrics K L False w = Some (r, w')"
  shows "\<exists>es. events w' = events w @ es \<and> queries es = []"
  using fetch_cases [of K w]
proof (elim disjE exE)
  fix err os1
  assume "fetch K w = (Exit 1, emit [Sysctl_iflist2_size (Inl err),
        Fprintf_stderr ''sysctl: %s\<newline>'' [err]] (w\<lparr>os := os1\<rparr>))"
  with assms have "events w' = events w @ [Sysctl_iflist2_size (Inl err),
        Fprintf_stderr ''sysctl: %s\<newline>'' [err]]"
    by (auto simp: GetNetworkMetrics_def emit_def)
  then show ?thesis by (intro exI [of _ "[Sysctl_iflist2_size (Inl err),
        Fprintf_stderr ''sysctl: %s\<newline>'' [err]]"]) simp
next
  fix n err os2
  assume "fetch K w = (Exit 1, emit [Sysctl_iflist2_size (Inr n),
        Sysctl_iflist2 n (Inl err), Fprintf_stderr ''sysctl: %s\<newline>'' [err]] (w\<lparr>os := os2\<rparr>))"
  with assms have "events w' = events w @ [Sysctl_iflist2_size (Inr n),
       Sysctl_iflist2 n (Inl err), Fprintf_stderr ''sysctl: %s\<newline>'' [err]]"
    by (auto simp: GetNetworkMetrics_def emit_def)
  then show ?thesis by (intro exI [of _ "[Sysctl_iflist2_size (Inr n),
       Sysctl_iflist2 n (Inl err), Fprintf_stderr ''sysctl: %s\<newline>'' [err]]"]) simp
next
  fix n buffer os2
  let ?w1 = "emit [Sysctl_iflist2_size (Inr n), Sysctl_iflist2 n (Inr buffer)] (w\<lparr>os := os2\<rparr>)"
  let ?pre = "[Sysctl_iflist2_size (Inr n), Sysctl_iflist2 n (Inr buffer)]"
  assume f: "fetch K w = (Return buffer, ?w1)"
  with assms obtain r1 where
    sc: "scan K L False buffer 0 zero_metrics ?w1 = Some (r1, w')"
    by (auto simp: GetNetworkMetrics_def split: option.splits outcome.splits prod.splits)
  from scan_trace [OF sc] obtain es where
    e: "events w' = events w @ ?pre @ es" and
    c: "case r1 of
        Return x \<Rightarrow> length buffer \<le> fst x \<and> pass_inv L False buffer zero_metrics es (snd x)
      | Exit c \<Rightarrow> c = 1 \<and> False \<and> (\<exists>es0 m q idx err.
            es = es0 @ [Visit q True, Sysctl_ifdata (uint idx) (Inl err),
                        Fprintf_stderr ''sysctl: %s\<newline>'' [err]]
            \<and> pass_inv L False buffer zero_metrics es0 m \<and> ifm_index L buffer q = Some idx)
      | OutOfBounds \<Rightarrow> list_all scan_event es \<and> (\<not> False \<longrightarrow> queries es = [])"
    by (auto simp: emit_def)
  have "queries es = []"
  proof (cases r1)
    case (Return x)
    with c show ?thesis by (auto simp: pass_inv_def)
  next
    case (Exit c1)
    with c show ?thesis by simp
  next
    case OutOfBounds
    with c show ?thesis by simp
  qed
  with e show ?thesis by (intro exI [of _ "?pre @ es"]) simp
qed

section \<open>The report of one turn of the loop\<close>

lemma iteration_Return:
  "GetNetworkMetrics K L u (emit [Sleep 1] w) = Some (Return cur, w1) \<Longrightarrow>
   iteration K L u prev w =
     Some (Return cur, emit (report prev cur @ input_overflow prev cur
                             @ output_overflow prev cur @ [Printf ''\<newline>\<newline>'' []]) w1)"
  by (simp add: iteration_def)

lemma uint_sub_mod: "uint (a - b :: u64) = (uint a - uint b) mod 2 ^ 64"
  by (simp add: uint_word_ariths)

lemma map_option_fst_SomeD: "map_option fst x = Some a \<Longrightarrow> \<exists>b. x = Some (a, b)"
  by (cases x) auto

lemma word_of_nat_diff_unat: "b \<le> a \<Longrightarrow> word_of_nat (unat a - unat b) = (a - b :: u64)"
  by (simp add: word_le_nat_alt)

lemma uint_sub_plain: "b \<le> a \<Longrightarrow> uint (a - b :: u64) = uint a - uint b"
  by (simp add: uint_sub_if' word_le_def)

lemma sint_sub_plain:
  "b \<le> a \<Longrightarrow> unat a - unat b < 2 ^ 63 \<Longrightarrow> sint (a - b :: u64) = uint a - uint b"
proof -
  assume le: "b \<le> a" and small: "unat a - unat b < 2 ^ 63"
  have u: "uint (a - b) = uint a - uint b" using le by (rule uint_sub_plain)
  have "unat b \<le> unat a" using le by (simp add: word_le_nat_alt)
  then have "uint a - uint b = int (unat a - unat b)" by (simp add: of_nat_diff)
  with small u have "uint (a - b) < 2 ^ 63" by simp
  moreover have "- (2 ^ 63) \<le> uint (a - b)"
  proof -
    have "- (2 ^ 63) \<le> (0 :: int)" by simp
    also have "0 \<le> uint (a - b)" by simp
    finally show ?thesis .
  qed
  ultimately have "signed_take_bit 63 (uint (a - b)) = uint (a - b)"
    by (intro signed_take_bit_int_eq_self)
  then have "sint (a - b) = uint (a - b)"
    by (simp add: sint_uint)
  with u show ?thesis by simp
qed

section \<open>Evaluation of the sample inputs\<close>

lemma sample_pass_embedded:
  "map_option fst (GetNetworkMetrics sample_kernel darwin False (emit [Sleep 1] initial_world)) =
     Some (Return \<lparr>totalInputBytes = 33, totalOutputBytes = 44,
                   totalInputPackets = 11, totalOutputPackets = 22\<rparr>)"
  by code_simp

lemma sample_pass_ifmib:
  "map_option fst (GetNetworkMetrics sample_kernel darwin True (emit [Sleep 1] initial_world)) =
     Some (Return \<lparr>totalInputBytes = 605, totalOutputBytes = 10,
                   totalInputPackets = 200, totalOutputPackets = 400\<rparr>)"
  by code_simp

lemma embedded_pass:
  "GetNetworkMetrics sample_kernel darwin False initial_world = Some (Return embedded_sample, embedded_world)"
  by code_simp

lemma ifmib_pass:
  "GetNetworkMetrics sample_kernel darwin True initial_world = Some (Return ifmib_sample, ifmib_world)"
  by code_simp

lemma failed_pass:
  "GetNetworkMetrics failing_kernel darwin True (emit [Sleep 1] initial_world) = Some (Exit 1, failed_world)"
  by code_simp

lemma zero_length_header:
  "0 < length zero_length_buffer"
  "ifm_msglen darwin zero_length_buffer 0 = Some 0"
  "ifm_type darwin zero_length_buffer 0 = Some 12"
  "(12 :: byte) \<noteq> RTM_IFINFO2 darwin"
  by (simp add: zero_length_buffer_def, code_simp, code_simp, simp add: darwin_def)

lemma two_msgs_headers:
  "length (other_msg @ other_msg) = 40"
  "ifm_msglen darwin (other_msg @ other_msg) 0 = Some 20"
  "ifm_msglen darwin (other_msg @ other_msg) 20 = Some 20"
  by (simp add: other_msg_def, code_simp, code_simp)

lemma reaches_two_msgs:
  "reaches sample_kernel darwin False (other_msg @ other_msg) zero_metrics initial_world p m w
   \<Longrightarrow> p = 0 \<or> p = 20 \<or> p = 40"
proof (induction rule: reaches.induct)
  case start
  then show ?case by simp
next
  case (turn p m w p' m' w')
  from loop_body_Return_cursor [OF turn.hyps(3)] obtain len where
    len: "ifm_msglen darwin (other_msg @ other_msg) p = Some len" "p' = p + unat len" by blast
  from turn.IH turn.hyps(2) two_msgs_headers(1) have "p = 0 \<or> p = 20" by auto
  then show ?case
  proof
    assume "p = 0"
    with len(1) two_msgs_headers(2) have "len = 20" by simp
    with \<open>p = 0\<close> len(2) show ?thesis by simp
  next
    assume "p = 20"
    with len(1) two_msgs_headers(3) have "len = 20" by simp
    with \<open>p = 20\<close> len(2) show ?thesis by simp
  qed
qed

section \<open>The claims\<close>

text \<open>
  Claim C1, as the specification states it: a message whose declared length is zero, or
  would move the cursor past the end of the buffer, ends the pass in a fatal parse error.
  The program has no such check. On \<open>overshoot_buffer\<close>, whose only message declares
  100 bytes in a buffer of 20, the pass returns the aggregate as if nothing were wrong; on
  \<open>zero_length_buffer\<close>, whose message declares 0 bytes, the pass never returns.
\<close>

theorem parse_error_counterexample:
  "length overshoot_buffer = 20
   \<and> ifm_msglen darwin overshoot_buffer 0 = Some 100
   \<and> GetNetworkMetrics (kernel_of overshoot_buffer) darwin False initial_world =
       Some (Return zero_metrics,
             \<lparr>os = 2, events = [Sysctl_iflist2_size (Inr 20),
                                Sysctl_iflist2 20 (Inr overshoot_buffer), Visit 0 False]\<rparr>)
   \<and> ifm_msglen darwin zero_length_buffer 0 = Some 0
   \<and> GetNetworkMetrics (kernel_of zero_length_buffer) darwin False initial_world = None"
proof -
  have 1: "length overshoot_buffer = 20" by (simp add: overshoot_buffer_def)
  have 2: "ifm_msglen darwin overshoot_buffer 0 = Some 100" by code_simp
  have 3: "GetNetworkMetrics (kernel_of overshoot_buffer) darwin False initial_world =
       Some (Return zero_metrics,
             \<lparr>os = 2, events = [Sysctl_iflist2_size (Inr 20),
                                Sysctl_iflist2 20 (Inr overshoot_buffer), Visit 0 False]\<rparr>)"
    by code_simp
  have f: "fetch (kernel_of zero_length_buffer) initial_world =
       (Return zero_length_buffer,
        \<lparr>os = 2, events = [Sysctl_iflist2_size (Inr 20),
                           Sysctl_iflist2 20 (Inr zero_length_buffer)]\<rparr>)"
    by (simp add: fetch_def kernel_of_def initial_world_def emit_def zero_length_buffer_def)
  have "scan (kernel_of zero_length_buffer) darwin False zero_length_buffer 0 zero_metrics
          \<lparr>os = 2, events = [Sysctl_iflist2_size (Inr 20),
                             Sysctl_iflist2 20 (Inr zero_length_buffer)]\<rparr> = None"
    by (rule scan_stuck [OF zero_length_header(1) zero_length_header(3) zero_length_header(4)
          zero_length_header(2)])
  with f have 5: "GetNetworkMetrics (kernel_of zero_length_buffer) darwin False initial_world = None"
    by (simp add: GetNetworkMetrics_def)
  from 1 2 3 zero_length_header(2) 5 show ?thesis by blast
qed

text \<open>
  Claim C1, amended. The loop trusts the declared length and knows no parse error. Each
  turn that completes moves the cursor by exactly \<^verbatim>\<open>ifm_msglen\<close>. A message whose declared
  length takes the cursor to the end of the buffer or past it is processed like any
  other, and the scan then ends normally with the aggregate. The only fatal end of a
  pass is \<^verbatim>\<open>exit(1)\<close> after a \<^verbatim>\<open>sysctl\<close> that failed, with its diagnostic.
\<close>

theorem declared_length_trusted:
  "(p < length buf \<and> loop_body K L u buf p m w = (Return (p', m'), w') \<and> length buf \<le> p'
      \<longrightarrow> scan K L u buf p m w = Some (Return (p', m'), w'))
   \<and> (loop_body K L u buf p m w = (Return (p', m'), w')
      \<longrightarrow> (\<exists>len. ifm_msglen L buf p = Some len \<and> p' = p + unat len))
   \<and> (GetNetworkMetrics K L u v = Some (Exit c, v')
      \<longrightarrow> c = 1 \<and> (\<exists>es0 e err. events v' = events v @ es0 @ [e, Fprintf_stderr ''sysctl: %s\<newline>'' [err]]
                      \<and> failed e))"
proof -
  have 1: "scan K L u buf p m w = Some (Return (p', m'), w')"
    if a: "p < length buf \<and> loop_body K L u buf p m w = (Return (p', m'), w') \<and> length buf \<le> p'"
  proof -
    from a have "scan K L u buf p m w = scan K L u buf p' m' w'"
      by (subst scan.simps) simp
    also have "\<dots> = Some (Return (p', m'), w')"
      using a by (subst scan.simps) simp
    finally show ?thesis .
  qed
  have 2: "\<exists>len. ifm_msglen L buf p = Some len \<and> p' = p + unat len"
    if "loop_body K L u buf p m w = (Return (p', m'), w')"
    using that by (rule loop_body_Return_cursor)
  have 3: "c = 1 \<and> (\<exists>es0 e err. events v' = events v @ es0 @ [e, Fprintf_stderr ''sysctl: %s\<newline>'' [err]]
                      \<and> failed e)"
    if g: "GetNetworkMetrics K L u v = Some (Exit c, v')"
  proof -
    from GetNetworkMetrics_trace [OF g] obtain es where
      ev: "events v' = events v @ es" and
      ex: "Exit c = (Exit 1 :: NetworkMetrics outcome) \<longrightarrow>
          (\<exists>es0 e err. es = es0 @ [e, Fprintf_stderr ''sysctl: %s\<newline>'' [err]]
             \<and> (e = Sysctl_iflist2_size (Inl err) \<or> (\<exists>n. e = Sysctl_iflist2 n (Inl err))
                  \<or> (\<exists>i. e = Sysctl_ifdata i (Inl err)))
             \<and> (\<forall>x\<in>set es0. \<not> failed x \<and> \<not> is_Printf x))" and
      nx: "Exit c \<noteq> (Exit 1 :: NetworkMetrics outcome) \<longrightarrow>
            (\<forall>c'. Exit c \<noteq> (Exit c' :: NetworkMetrics outcome))"
      by blast
    from nx have c: "c = 1" by auto
    with ex obtain es0 e err where
      "es = es0 @ [e, Fprintf_stderr ''sysctl: %s\<newline>'' [err]]" "failed e" by auto
    with ev c show ?thesis by blast
  qed
  from 1 2 3 show ?thesis by blast
qed

theorem declared_length_trusted_witness:
  "loop_body failing_kernel darwin True overshoot_buffer 0 zero_metrics initial_world =
     (Return (100, zero_metrics), emit [Visit 0 False] initial_world)
   \<and> scan failing_kernel darwin True overshoot_buffer 0 zero_metrics initial_world =
       Some (Return (100, zero_metrics), emit [Visit 0 False] initial_world)
   \<and> (\<exists>len. ifm_msglen darwin overshoot_buffer 0 = Some len \<and> (100 :: nat) = 0 + unat len)
   \<and> GetNetworkMetrics failing_kernel darwin True (emit [Sleep 1] initial_world) = Some (Exit 1, failed_world)
   \<and> (\<exists>es0 e err. events failed_world =
          events (emit [Sleep 1] initial_world) @ es0 @ [e, Fprintf_stderr ''sysctl: %s\<newline>'' [err]]
        \<and> failed e)"
proof -
  have lb: "loop_body failing_kernel darwin True overshoot_buffer 0 zero_metrics initial_world =
     (Return (100, zero_metrics), emit [Visit 0 False] initial_world)" by code_simp
  have lt: "0 < length overshoot_buffer" and le: "length overshoot_buffer \<le> 100"
    by (simp_all add: overshoot_buffer_def)
  note t = declared_length_trusted [where p = 0 and buf = overshoot_buffer
      and K = failing_kernel and L = darwin and u = True and m = zero_metrics and w = initial_world
      and p' = 100 and m' = zero_metrics and w' = "emit [Visit 0 False] initial_world"
      and v = "emit [Sleep 1] initial_world" and c = 1 and v' = failed_world]
  from t lb lt le failed_pass show ?thesis by blast
qed

text \<open>
  Claim C2. Each of the four deltas of the report is \<open>current.field - previous.field\<close>
  modulo \<open>2^64\<close>. For previous 10 and current 15 the delta is 5; for previous \<open>2^64 - 5\<close>
  and current 3 it is 8.
\<close>

theorem deltas_wrap:
  "(\<exists>dip dop dib dob.
      report prev cur =
        [Printf ''--- PACKETS ---\<newline>'' [],
         Printf ''  Input (Download): %llu (total), %llu (delta)\<newline>''
           [totalInputPackets cur, dip],
         Printf ''  Output (Upload): %llu (total), %llu (delta)\<newline>''
           [totalOutputPackets cur, dop],
         Printf ''--- BYTES ---\<newline>'' [],
         Printf ''  Input (Download): %llu (total), %llu (delta)\<newline>''
           [totalInputBytes cur, dib],
         Printf ''  Output (Upload): %llu (total), %llu (delta)\<newline>''
           [totalOutputBytes cur, dob]]
      \<and> uint dip = (uint (totalInputPackets cur) - uint (totalInputPackets prev)) mod 2 ^ 64
      \<and> uint dop = (uint (totalOutputPackets cur) - uint (totalOutputPackets prev)) mod 2 ^ 64
      \<and> uint dib = (uint (totalInputBytes cur) - uint (totalInputBytes prev)) mod 2 ^ 64
      \<and> uint dob = (uint (totalOutputBytes cur) - uint (totalOutputBytes prev)) mod 2 ^ 64)
   \<and> inputBytesDelta (zero_metrics\<lparr>totalInputBytes := 10\<rparr>)
        (zero_metrics\<lparr>totalInputBytes := 15\<rparr>) = 5
   \<and> uint (18446744073709551611 :: u64) = 2 ^ 64 - 5
   \<and> inputBytesDelta (zero_metrics\<lparr>totalInputBytes := 18446744073709551611\<rparr>)
        (zero_metrics\<lparr>totalInputBytes := 3\<rparr>) = 8"
  by (simp add: report_def inputPacketsDelta_def outputPacketsDelta_def inputBytesDelta_def
      outputBytesDelta_def uint_sub_mod zero_metrics_def)

text \<open>
  Claim C3. In every turn of the loop the input warning is printed exactly when the
  current total of input bytes is below the previous one as unsigned integers, and the
  output warning likewise and independently. The warning prints the value before, the
  value after and their true difference. The turn then ends as any other: the sample just
  taken becomes the previous one of the next turn.
\<close>

theorem overflow_warning:
  "input_overflow prev cur =
     (if unat (totalInputBytes cur) < unat (totalInputBytes prev) then
        [Printf ''!! INPUT OVERFLOW !!\<newline>'' [],
         Printf ''Before: %llu, After: %llu, Difference: %llu\<newline>''
           [totalInputBytes prev, totalInputBytes cur,
            word_of_nat (unat (totalInputBytes prev) - unat (totalInputBytes cur))]]
      else [])
   \<and> output_overflow prev cur =
     (if unat (totalOutputBytes cur) < unat (totalOutputBytes prev) then
        [Printf ''!! OUTPUT OVERFLOW !!\<newline>'' [],
         Printf ''Before: %llu, After: %llu, Difference: %llu\<newline>''
           [totalOutputBytes prev, totalOutputBytes cur,
            word_of_nat (unat (totalOutputBytes prev) - unat (totalOutputBytes cur))]]
      else [])
   \<and> (GetNetworkMetrics K L u (emit [Sleep 1] w) = Some (Return cur, w1) \<longrightarrow>
        iteration K L u prev w =
          Some (Return cur, emit (report prev cur @ input_overflow prev cur
                                  @ output_overflow prev cur @ [Printf ''\<newline>\<newline>'' []]) w1))
   \<and> (GetNetworkMetrics K L True (emit [Sleep 1] w) = Some (Return cur, w1) \<longrightarrow>
        turns K L (Suc n) prev w =
          turns K L n cur (emit (report prev cur @ input_overflow prev cur
                                 @ output_overflow prev cur @ [Printf ''\<newline>\<newline>'' []]) w1))"
  by (simp add: input_overflow_def output_overflow_def word_less_nat_alt iteration_Return
      word_of_nat_diff_unat word_le_nat_alt)

theorem overflow_warning_witness:
  "input_overflow
     \<lparr>totalInputBytes = 1000, totalOutputBytes = 7, totalInputPackets = 0, totalOutputPackets = 0\<rparr>
     \<lparr>totalInputBytes = 605, totalOutputBytes = 10, totalInputPackets = 200, totalOutputPackets = 400\<rparr>
     = [Printf ''!! INPUT OVERFLOW !!\<newline>'' [],
        Printf ''Before: %llu, After: %llu, Difference: %llu\<newline>'' [1000, 605, 395]]
   \<and> output_overflow
     \<lparr>totalInputBytes = 1000, totalOutputBytes = 7, totalInputPackets = 0, totalOutputPackets = 0\<rparr>
     \<lparr>totalInputBytes = 605, totalOutputBytes = 10, totalInputPackets = 200, totalOutputPackets = 400\<rparr>
     = []
   \<and> map_option fst (iteration sample_kernel darwin True
        \<lparr>totalInputBytes = 1000, totalOutputBytes = 7, totalInputPackets = 0, totalOutputPackets = 0\<rparr> initial_world)
     = Some (Return \<lparr>totalInputBytes = 605, totalOutputBytes = 10,
                     totalInputPackets = 200, totalOutputPackets = 400\<rparr>)
   \<and> map_option fst (turns sample_kernel darwin (Suc 0)
        \<lparr>totalInputBytes = 1000, totalOutputBytes = 7, totalInputPackets = 0, totalOutputPackets = 0\<rparr> initial_world)
     = Some (Return \<lparr>totalInputBytes = 605, totalOutputBytes = 10,
                     totalInputPackets = 200, totalOutputPackets = 400\<rparr>)"
proof -
  let ?P = "\<lparr>totalInputBytes = 1000, totalOutputBytes = 7, totalInputPackets = 0, totalOutputPackets = 0\<rparr>"
  let ?C = "\<lparr>totalInputBytes = 605, totalOutputBytes = 10, totalInputPackets = 200, totalOutputPackets = 400\<rparr>"
  obtain w1 where g: "GetNetworkMetrics sample_kernel darwin True (emit [Sleep 1] initial_world) = Some (Return ?C, w1)"
    using map_option_fst_SomeD [OF sample_pass_ifmib] by blast
  from g overflow_warning [of ?P ?C sample_kernel darwin True initial_world w1 0]
  show ?thesis by simp
qed

text \<open>
  Claim C4. With \<^verbatim>\<open>useIfmibData\<close> false a pass makes no interface query, however it
  ends, and the counters it adds are those embedded in the \<^verbatim>\<open>RTM_IFINFO2\<close> messages. With
  \<^verbatim>\<open>useIfmibData\<close> true a pass that returns has made one query for each such message, in
  order, for the interface index of that message, and the counters it adds are the
  replies: the embedded counters are not read.
\<close>

theorem source_selection:
  "(GetNetworkMetrics K L False w = Some (r, w') \<longrightarrow>
      (\<exists>es. events w' = events w @ es \<and> queries es = []))
   \<and> (GetNetworkMetrics K L u v = Some (Return M, v') \<longrightarrow>
      (\<exists>n buffer es ds.
         events v' = events v @ [Sysctl_iflist2_size (Inr n), Sysctl_iflist2 n (Inr buffer)] @ es
         \<and> M = foldl add_data zero_metrics ds
         \<and> length ds = length (generic_offsets es)
         \<and> (if u then map (\<lambda>q. Some (fst q)) (queries es)
                       = map (\<lambda>p. map_option uint (ifm_index L buffer p)) (generic_offsets es)
                     \<and> map snd (queries es) = map Inr ds
             else queries es = []
                  \<and> map Some ds = map (ifm_data L buffer) (generic_offsets es))))"
  using pass_without_queries [of K L w r w'] pass_counters [of K L u v M v']
  by blast

theorem source_selection_witness:
  "GetNetworkMetrics sample_kernel darwin False initial_world = Some (Return embedded_sample, embedded_world)
   \<and> (\<exists>es. events embedded_world = events initial_world @ es \<and> queries es = [])
   \<and> GetNetworkMetrics sample_kernel darwin True initial_world = Some (Return ifmib_sample, ifmib_world)
   \<and> (\<exists>n buffer es ds.
         events ifmib_world =
           events initial_world @ [Sysctl_iflist2_size (Inr n), Sysctl_iflist2 n (Inr buffer)] @ es
         \<and> ifmib_sample = foldl add_data zero_metrics ds
         \<and> length ds = length (generic_offsets es)
         \<and> map (\<lambda>q. Some (fst q)) (queries es)
             = map (\<lambda>p. map_option uint (ifm_index darwin buffer p)) (generic_offsets es)
         \<and> map snd (queries es) = map Inr ds)"
proof -
  note t = source_selection [where K = sample_kernel and L = darwin and w = initial_world
      and r = "Return embedded_sample" and w' = embedded_world and u = True and v = initial_world
      and M = ifmib_sample and v' = ifmib_world]
  from t embedded_pass ifmib_pass show ?thesis by simp
qed

text \<open>
  Claim C5. Whenever a \<^verbatim>\<open>sysctl\<close> of a turn fails, whether one of the two that fetch the
  buffer or an interface query, the turn ends in \<^verbatim>\<open>exit(1)\<close>: the failed request and the
  diagnostic with its error text are the last two events, nothing was written to
  standard output, and no sample is returned that could become the previous one. Over
  a whole run of \<^verbatim>\<open>main\<close>, first sample included, nothing follows the first failed request
  but its diagnostic. The process does end: when the first or the second \<^verbatim>\<open>sysctl\<close> of the
  fetch fails, or the interface query at a message the loop has come to, the pass, the
  turn and \<^verbatim>\<open>main\<close> return \<^verbatim>\<open>exit(1)\<close>, with exactly the failed request and the diagnostic
  added to the trace, and every \<^verbatim>\<open>exit\<close> of a pass ends the turn and the loop with it.
\<close>

theorem fatal_propagation:
  "(iteration K L u prev w = Some (r, w') \<longrightarrow>
      (\<exists>es. events w' = events w @ es \<and>
         ((\<exists>x\<in>set es. failed x) \<longrightarrow>
            r = Exit 1
            \<and> (\<exists>es0 e err. es = es0 @ [e, Fprintf_stderr ''sysctl: %s\<newline>'' [err]]
                 \<and> (e = Sysctl_iflist2_size (Inl err) \<or> (\<exists>n. e = Sysctl_iflist2 n (Inl err))
                      \<or> (\<exists>i. e = Sysctl_ifdata i (Inl err)))
                 \<and> (\<forall>x\<in>set es0. \<not> failed x))
            \<and> (\<forall>x\<in>set es. \<not> is_Printf x)
            \<and> (u \<longrightarrow> turns K L (Suc n) prev w = Some (Exit 1, w')))))
   \<and> (main K L k v = Some (r', v') \<longrightarrow>
      (\<exists>es. events v' = events v @ es \<and>
         ((\<exists>x\<in>set es. failed x) \<longrightarrow>
            r' = Exit 1
            \<and> (\<exists>es0 e err. es = es0 @ [e, Fprintf_stderr ''sysctl: %s\<newline>'' [err]]
                 \<and> failed e \<and> (\<forall>x\<in>set es0. \<not> failed x)))))
   \<and> (sysctl_iflist2_size Ka (os sa) = (Inl ea, oa) \<longrightarrow>
        iteration Ka La ua pa sa =
          Some (Exit 1, emit [Sleep 1, Sysctl_iflist2_size (Inl ea),
                              Fprintf_stderr ''sysctl: %s\<newline>'' [ea]] (sa\<lparr>os := oa\<rparr>))
        \<and> turns Ka La (Suc na) pa sa =
          Some (Exit 1, emit [Sleep 1, Sysctl_iflist2_size (Inl ea),
                              Fprintf_stderr ''sysctl: %s\<newline>'' [ea]] (sa\<lparr>os := oa\<rparr>))
        \<and> main Ka La na sa =
          Some (Exit 1, emit [Sysctl_iflist2_size (Inl ea),
                              Fprintf_stderr ''sysctl: %s\<newline>'' [ea]] (sa\<lparr>os := oa\<rparr>)))
   \<and> (sysctl_iflist2_size Kb (os sb) = (Inr lb, ob) \<and> sysctl_iflist2 Kb lb ob = (Inl eb, ob')
      \<longrightarrow>
        iteration Kb Lb ub pb sb =
          Some (Exit 1, emit [Sleep 1, Sysctl_iflist2_size (Inr lb), Sysctl_iflist2 lb (Inl eb),
                              Fprintf_stderr ''sysctl: %s\<newline>'' [eb]] (sb\<lparr>os := ob'\<rparr>))
        \<and> turns Kb Lb (Suc nb) pb sb =
          Some (Exit 1, emit [Sleep 1, Sysctl_iflist2_size (Inr lb), Sysctl_iflist2 lb (Inl eb),
                              Fprintf_stderr ''sysctl: %s\<newline>'' [eb]] (sb\<lparr>os := ob'\<rparr>))
        \<and> main Kb Lb nb sb =
          Some (Exit 1, emit [Sysctl_iflist2_size (Inr lb), Sysctl_iflist2 lb (Inl eb),
                              Fprintf_stderr ''sysctl: %s\<newline>'' [eb]] (sb\<lparr>os := ob'\<rparr>)))
   \<and> (sysctl_iflist2_size Kc (os sc) = (Inr lc, oc) \<and> sysctl_iflist2 Kc lc oc = (Inr buffer, oc')
        \<and> reaches Kc Lc True buffer zero_metrics
             (emit [Sysctl_iflist2_size (Inr lc), Sysctl_iflist2 lc (Inr buffer)] (sc\<lparr>os := oc'\<rparr>))
             p m wc
        \<and> p < length buffer
        \<and> ifm_type Lc buffer p = Some (RTM_IFINFO2 Lc)
        \<and> ifm_index Lc buffer p = Some idx
        \<and> sysctl_ifdata Kc (uint idx) (os wc) = (Inl ec, oc'')
      \<longrightarrow>
        GetNetworkMetrics Kc Lc True sc =
          Some (Exit 1, emit [Visit p True, Sysctl_ifdata (uint idx) (Inl ec),
                              Fprintf_stderr ''sysctl: %s\<newline>'' [ec]] (wc\<lparr>os := oc''\<rparr>))
        \<and> main Kc Lc nc sc =
          Some (Exit 1, emit [Visit p True, Sysctl_ifdata (uint idx) (Inl ec),
                              Fprintf_stderr ''sysctl: %s\<newline>'' [ec]] (wc\<lparr>os := oc''\<rparr>)))
   \<and> (GetNetworkMetrics Kd Ld True (emit [Sleep 1] sd) = Some (Exit cd, sd') \<longrightarrow>
        iteration Kd Ld True pd sd = Some (Exit cd, sd')
        \<and> turns Kd Ld (Suc nd) pd sd = Some (Exit cd, sd'))"
proof -
  have 1: "iteration K L u prev w = Some (r, w') \<longrightarrow>
      (\<exists>es. events w' = events w @ es \<and>
         ((\<exists>x\<in>set es. failed x) \<longrightarrow>
            r = Exit 1
            \<and> (\<exists>es0 e err. es = es0 @ [e, Fprintf_stderr ''sysctl: %s\<newline>'' [err]]
                 \<and> (e = Sysctl_iflist2_size (Inl err) \<or> (\<exists>n. e = Sysctl_iflist2 n (Inl err))
                      \<or> (\<exists>i. e = Sysctl_ifdata i (Inl err)))
                 \<and> (\<forall>x\<in>set es0. \<not> failed x))
            \<and> (\<forall>x\<in>set es. \<not> is_Printf x)
            \<and> (u \<longrightarrow> turns K L (Suc n) prev w = Some (Exit 1, w'))))"
  proof
    assume it: "iteration K L u prev w = Some (r, w')"
    from iteration_trace [OF it] obtain es where
      a: "events w' = events w @ es" and
      b: "(\<exists>x\<in>set es. failed x) \<longrightarrow>
          r = Exit 1
          \<and> (\<exists>es0 e err. es = es0 @ [e, Fprintf_stderr ''sysctl: %s\<newline>'' [err]]
               \<and> (e = Sysctl_iflist2_size (Inl err) \<or> (\<exists>n. e = Sysctl_iflist2 n (Inl err))
                    \<or> (\<exists>i. e = Sysctl_ifdata i (Inl err)))
               \<and> (\<forall>x\<in>set es0. \<not> failed x))
          \<and> (\<forall>x\<in>set es. \<not> is_Printf x)" by blast
    have "r = Exit 1 \<Longrightarrow> u \<Longrightarrow> turns K L (Suc n) prev w = Some (Exit 1, w')"
      using it by simp
    with a b show "\<exists>es. events w' = events w @ es \<and>
         ((\<exists>x\<in>set es. failed x) \<longrightarrow>
            r = Exit 1
            \<and> (\<exists>es0 e err. es = es0 @ [e, Fprintf_stderr ''sysctl: %s\<newline>'' [err]]
                 \<and> (e = Sysctl_iflist2_size (Inl err) \<or> (\<exists>n. e = Sysctl_iflist2 n (Inl err))
                      \<or> (\<exists>i. e = Sysctl_ifdata i (Inl err)))
                 \<and> (\<forall>x\<in>set es0. \<not> failed x))
            \<and> (\<forall>x\<in>set es. \<not> is_Printf x)
            \<and> (u \<longrightarrow> turns K L (Suc n) prev w = Some (Exit 1, w')))"
      by blast
  qed
  have 2: "main K L k v = Some (r', v') \<longrightarrow>
      (\<exists>es. events v' = events v @ es \<and>
         ((\<exists>x\<in>set es. failed x) \<longrightarrow>
            r' = Exit 1
            \<and> (\<exists>es0 e err. es = es0 @ [e, Fprintf_stderr ''sysctl: %s\<newline>'' [err]]
                 \<and> failed e \<and> (\<forall>x\<in>set es0. \<not> failed x))))"
    using main_failure [of K L k v r' v'] by blast
  have 3: "iteration Ka La ua pa sa =
          Some (Exit 1, emit [Sleep 1, Sysctl_iflist2_size (Inl ea),
                              Fprintf_stderr ''sysctl: %s\<newline>'' [ea]] (sa\<lparr>os := oa\<rparr>))
        \<and> turns Ka La (Suc na) pa sa =
          Some (Exit 1, emit [Sleep 1, Sysctl_iflist2_size (Inl ea),
                              Fprintf_stderr ''sysctl: %s\<newline>'' [ea]] (sa\<lparr>os := oa\<rparr>))
        \<and> main Ka La na sa =
          Some (Exit 1, emit [Sysctl_iflist2_size (Inl ea),
                              Fprintf_stderr ''sysctl: %s\<newline>'' [ea]] (sa\<lparr>os := oa\<rparr>))"
    if h: "sysctl_iflist2_size Ka (os sa) = (Inl ea, oa)"
  proof -
    have f: "\<And>s. os s = os sa \<Longrightarrow>
        fetch Ka s = (Exit 1, emit [Sysctl_iflist2_size (Inl ea),
                         Fprintf_stderr ''sysctl: %s\<newline>'' [ea]] (s\<lparr>os := oa\<rparr>))"
      using h by (simp add: fetch_size_fails)
    have g: "\<And>s u. os s = os sa \<Longrightarrow>
        GetNetworkMetrics Ka La u s = Some (Exit 1, emit [Sysctl_iflist2_size (Inl ea),
                         Fprintf_stderr ''sysctl: %s\<newline>'' [ea]] (s\<lparr>os := oa\<rparr>))"
      using f by (simp add: pass_fetch_exits)
    have e: "emit [Sysctl_iflist2_size (Inl ea), Fprintf_stderr ''sysctl: %s\<newline>'' [ea]]
               ((emit [Sleep 1] sa)\<lparr>os := oa\<rparr>)
           = emit [Sleep 1, Sysctl_iflist2_size (Inl ea),
                   Fprintf_stderr ''sysctl: %s\<newline>'' [ea]] (sa\<lparr>os := oa\<rparr>)"
      by (simp add: emit_def)
    have gs: "\<And>u. GetNetworkMetrics Ka La u (emit [Sleep 1] sa) =
          Some (Exit 1, emit [Sleep 1, Sysctl_iflist2_size (Inl ea),
                              Fprintf_stderr ''sysctl: %s\<newline>'' [ea]] (sa\<lparr>os := oa\<rparr>))"
      using g [of "emit [Sleep 1] sa"] e by (simp add: os_emit)
    show ?thesis
      using iteration_exits [OF gs] turns_exits [OF gs] main_exits [OF g [of sa True]]
      by simp
  qed
  have 4: "iteration Kb Lb ub pb sb =
          Some (Exit 1, emit [Sleep 1, Sysctl_iflist2_size (Inr lb), Sysctl_iflist2 lb (Inl eb),
                              Fprintf_stderr ''sysctl: %s\<newline>'' [eb]] (sb\<lparr>os := ob'\<rparr>))
        \<and> turns Kb Lb (Suc nb) pb sb =
          Some (Exit 1, emit [Sleep 1, Sysctl_iflist2_size (Inr lb), Sysctl_iflist2 lb (Inl eb),
                              Fprintf_stderr ''sysctl: %s\<newline>'' [eb]] (sb\<lparr>os := ob'\<rparr>))
        \<and> main Kb Lb nb sb =
          Some (Exit 1, emit [Sysctl_iflist2_size (Inr lb), Sysctl_iflist2 lb (Inl eb),
                              Fprintf_stderr ''sysctl: %s\<newline>'' [eb]] (sb\<lparr>os := ob'\<rparr>))"
    if h: "sysctl_iflist2_size Kb (os sb) = (Inr lb, ob) \<and> sysctl_iflist2 Kb lb ob = (Inl eb, ob')"
  proof -
    have g: "\<And>s u. os s = os sb \<Longrightarrow>
        GetNetworkMetrics Kb Lb u s = Some (Exit 1, emit [Sysctl_iflist2_size (Inr lb),
                         Sysctl_iflist2 lb (Inl eb),
                         Fprintf_stderr ''sysctl: %s\<newline>'' [eb]] (s\<lparr>os := ob'\<rparr>))"
      using h by (simp add: fetch_read_fails pass_fetch_exits)
    have e: "emit [Sysctl_iflist2_size (Inr lb), Sysctl_iflist2 lb (Inl eb),
                   Fprintf_stderr ''sysctl: %s\<newline>'' [eb]] ((emit [Sleep 1] sb)\<lparr>os := ob'\<rparr>)
           = emit [Sleep 1, Sysctl_iflist2_size (Inr lb), Sysctl_iflist2 lb (Inl eb),
                   Fprintf_stderr ''sysctl: %s\<newline>'' [eb]] (sb\<lparr>os := ob'\<rparr>)"
      by (simp add: emit_def)
    have gs: "\<And>u. GetNetworkMetrics Kb Lb u (emit [Sleep 1] sb) =
          Some (Exit 1, emit [Sleep 1, Sysctl_iflist2_size (Inr lb), Sysctl_iflist2 lb (Inl eb),
                              Fprintf_stderr ''sysctl: %s\<newline>'' [eb]] (sb\<lparr>os := ob'\<rparr>))"
      using g [of "emit [Sleep 1] sb"] e by (simp add: os_emit)
    show ?thesis
      using iteration_exits [OF gs] turns_exits [OF gs] main_exits [OF g [of sb True]]
      by simp
  qed
  have 5: "GetNetworkMetrics Kc Lc True sc =
          Some (Exit 1, emit [Visit p True, Sysctl_ifdata (uint idx) (Inl ec),
                              Fprintf_stderr ''sysctl: %s\<newline>'' [ec]] (wc\<lparr>os := oc''\<rparr>))
        \<and> main Kc Lc nc sc =
          Some (Exit 1, emit [Visit p True, Sysctl_ifdata (uint idx) (Inl ec),
                              Fprintf_stderr ''sysctl: %s\<newline>'' [ec]] (wc\<lparr>os := oc''\<rparr>))"
    if h: "sysctl_iflist2_size Kc (os sc) = (Inr lc, oc) \<and> sysctl_iflist2 Kc lc oc = (Inr buffer, oc')
        \<and> reaches Kc Lc True buffer zero_metrics
             (emit [Sysctl_iflist2_size (Inr lc), Sysctl_iflist2 lc (Inr buffer)] (sc\<lparr>os := oc'\<rparr>))
             p m wc
        \<and> p < length buffer
        \<and> ifm_type Lc buffer p = Some (RTM_IFINFO2 Lc)
        \<and> ifm_index Lc buffer p = Some idx
        \<and> sysctl_ifdata Kc (uint idx) (os wc) = (Inl ec, oc'')"
  proof -
    from h have f: "fetch Kc sc = (Return buffer,
        emit [Sysctl_iflist2_size (Inr lc), Sysctl_iflist2 lc (Inr buffer)] (sc\<lparr>os := oc'\<rparr>))"
      by (simp add: fetch_succeeds)
    from h have r: "reaches Kc Lc True buffer zero_metrics
             (emit [Sysctl_iflist2_size (Inr lc), Sysctl_iflist2 lc (Inr buffer)] (sc\<lparr>os := oc'\<rparr>))
             p m wc"
      and lt: "p < length buffer"
      and ty: "ifm_type Lc buffer p = Some (RTM_IFINFO2 Lc)"
      and ix: "ifm_index Lc buffer p = Some idx"
      and q: "sysctl_ifdata Kc (uint idx) (os wc) = (Inl ec, oc'')" by simp_all
    have g: "GetNetworkMetrics Kc Lc True sc =
          Some (Exit 1, emit [Visit p True, Sysctl_ifdata (uint idx) (Inl ec),
                              Fprintf_stderr ''sysctl: %s\<newline>'' [ec]] (wc\<lparr>os := oc''\<rparr>))"
      by (rule pass_query_exits [OF f r lt ty ix q])
    with main_exits [OF g] show ?thesis by simp
  qed
  have 6: "iteration Kd Ld True pd sd = Some (Exit cd, sd')
        \<and> turns Kd Ld (Suc nd) pd sd = Some (Exit cd, sd')"
    if h: "GetNetworkMetrics Kd Ld True (emit [Sleep 1] sd) = Some (Exit cd, sd')"
    using iteration_exits [OF h] turns_exits [OF h] by simp
  from 1 2 3 4 5 6 show ?thesis by blast
qed

theorem fatal_propagation_witness:
  "iteration failing_kernel darwin True zero_metrics initial_world = Some (Exit 1, failed_world)
   \<and> (\<exists>x\<in>set (events failed_world). failed x)
   \<and> list_all (\<lambda>x. \<not> is_Printf x) (events failed_world)
   \<and> turns failing_kernel darwin (Suc 0) zero_metrics initial_world = Some (Exit 1, failed_world)
   \<and> main failing_kernel darwin 3 initial_world = Some (Exit 1, \<lparr>os = 4, events = failed_events\<rparr>)
   \<and> (\<exists>x\<in>set failed_events. failed x)
   \<and> (\<exists>es0 e err. failed_events = es0 @ [e, Fprintf_stderr ''sysctl: %s\<newline>'' [err]]
        \<and> failed e \<and> (\<forall>x\<in>set es0. \<not> failed x))
   \<and> iteration size_failing_kernel darwin True zero_metrics initial_world =
        Some (Exit 1, \<lparr>os = 1, events = [Sleep 1,
                Sysctl_iflist2_size (Inl ''Operation not permitted''),
                Fprintf_stderr ''sysctl: %s\<newline>'' [''Operation not permitted'']]\<rparr>)
   \<and> main size_failing_kernel darwin 3 initial_world =
        Some (Exit 1, \<lparr>os = 1, events = [
                Sysctl_iflist2_size (Inl ''Operation not permitted''),
                Fprintf_stderr ''sysctl: %s\<newline>'' [''Operation not permitted'']]\<rparr>)
   \<and> iteration read_failing_kernel darwin True zero_metrics initial_world =
        Some (Exit 1, \<lparr>os = 2, events = [Sleep 1,
                Sysctl_iflist2_size (Inr 340), Sysctl_iflist2 340 (Inl ''Cannot allocate memory''),
                Fprintf_stderr ''sysctl: %s\<newline>'' [''Cannot allocate memory'']]\<rparr>)
   \<and> main read_failing_kernel darwin 3 initial_world =
        Some (Exit 1, \<lparr>os = 2, events = [
                Sysctl_iflist2_size (Inr 340), Sysctl_iflist2 340 (Inl ''Cannot allocate memory''),
                Fprintf_stderr ''sysctl: %s\<newline>'' [''Cannot allocate memory'']]\<rparr>)
   \<and> GetNetworkMetrics failing_kernel darwin True (emit [Sleep 1] initial_world) =
        Some (Exit 1, failed_world)"
proof -
  let ?s = "emit [Sleep 1] initial_world"
  let ?W1 = "emit [Sysctl_iflist2_size (Inr 340), Sysctl_iflist2 340 (Inr sample_buffer)]
               (?s\<lparr>os := 2\<rparr>)"
  let ?d = "\<lparr>ifi_ipackets = 100, ifi_opackets = 200, ifi_ibytes = 300, ifi_obytes = 5\<rparr>"
  let ?m1 = "\<lparr>totalInputBytes = 300, totalOutputBytes = 5,
              totalInputPackets = 100, totalOutputPackets = 200\<rparr>"
  let ?W2 = "\<lparr>os = 3 :: nat, events = [Sleep 1, Sysctl_iflist2_size (Inr 340),
               Sysctl_iflist2 340 (Inr sample_buffer), Visit 0 True,
               Sysctl_ifdata 1 (Inr ?d)]\<rparr>"
  let ?W3 = "\<lparr>os = 3 :: nat, events = [Sleep 1, Sysctl_iflist2_size (Inr 340),
               Sysctl_iflist2 340 (Inr sample_buffer), Visit 0 True,
               Sysctl_ifdata 1 (Inr ?d), Visit 160 False]\<rparr>"
  have h: "iteration failing_kernel darwin True zero_metrics initial_world = Some (Exit 1, failed_world)"
    using failed_pass by (simp add: iteration_def)
  have g: "main failing_kernel darwin 3 initial_world = Some (Exit 1, \<lparr>os = 4, events = failed_events\<rparr>)"
    by code_simp
  have f: "\<exists>x\<in>set (events failed_world). failed x" "\<exists>x\<in>set failed_events. failed x"
    by (simp_all add: failed_world_def failed_events_def)
  have ha: "sysctl_iflist2_size size_failing_kernel (os initial_world)
              = (Inl ''Operation not permitted'', 1)"
    by (simp add: size_failing_kernel_def initial_world_def)
  have hb: "sysctl_iflist2_size read_failing_kernel (os initial_world) = (Inr 340, 1)
            \<and> sysctl_iflist2 read_failing_kernel 340 1 = (Inl ''Cannot allocate memory'', 2)"
    by (simp add: read_failing_kernel_def initial_world_def)
  have len: "length sample_buffer = 340" by code_simp
  have lb0: "loop_body failing_kernel darwin True sample_buffer 0 zero_metrics ?W1
               = (Return (160, ?m1), ?W2)" by code_simp
  have lb1: "loop_body failing_kernel darwin True sample_buffer 160 ?m1 ?W2
               = (Return (180, ?m1), ?W3)" by code_simp
  have r1: "reaches failing_kernel darwin True sample_buffer zero_metrics ?W1 160 ?m1 ?W2"
    using reaches.turn [OF reaches.start _ lb0] len by simp
  have r2: "reaches failing_kernel darwin True sample_buffer zero_metrics ?W1 180 ?m1 ?W3"
    using reaches.turn [OF r1 _ lb1] len by simp
  have hc: "sysctl_iflist2_size failing_kernel (os ?s) = (Inr 340, 1)
        \<and> sysctl_iflist2 failing_kernel 340 1 = (Inr sample_buffer, 2)
        \<and> reaches failing_kernel darwin True sample_buffer zero_metrics ?W1 180 ?m1 ?W3
        \<and> 180 < length sample_buffer
        \<and> ifm_type darwin sample_buffer 180 = Some (RTM_IFINFO2 darwin)
        \<and> ifm_index darwin sample_buffer 180 = Some 2
        \<and> sysctl_ifdata failing_kernel (uint (2 :: u16)) (os ?W3) = (Inl ''Device not configured'', 4)"
  proof (intro conjI)
    show "sysctl_iflist2_size failing_kernel (os ?s) = (Inr 340, 1)"
      by (simp add: failing_kernel_def emit_def initial_world_def)
    show "sysctl_iflist2 failing_kernel 340 1 = (Inr sample_buffer, 2)"
      by (simp add: failing_kernel_def)
    show "reaches failing_kernel darwin True sample_buffer zero_metrics ?W1 180 ?m1 ?W3"
      by (rule r2)
    show "180 < length sample_buffer" using len by simp
    show "ifm_type darwin sample_buffer 180 = Some (RTM_IFINFO2 darwin)" by code_simp
    show "ifm_index darwin sample_buffer 180 = Some 2" by code_simp
    show "sysctl_ifdata failing_kernel (uint (2 :: u16)) (os ?W3) = (Inl ''Device not configured'', 4)"
      by (simp add: failing_kernel_def)
  qed
  have wf: "emit [Visit 180 True, Sysctl_ifdata (uint (2 :: u16)) (Inl ''Device not configured''),
                  Fprintf_stderr ''sysctl: %s\<newline>'' [''Device not configured'']] (?W3\<lparr>os := 4\<rparr>)
            = failed_world"
    by (simp add: emit_def failed_world_def failed_events_def)
  note t = fatal_propagation [where K = failing_kernel and L = darwin and u = True
      and prev = zero_metrics and w = initial_world and r = "Exit 1" and w' = failed_world and n = 0
      and k = 3 and v = initial_world and r' = "Exit 1" and v' = "\<lparr>os = 4, events = failed_events\<rparr>"
      and Ka = size_failing_kernel and La = darwin and ua = True and pa = zero_metrics
      and sa = initial_world and ea = "''Operation not permitted''" and oa = 1 and na = 3
      and Kb = read_failing_kernel and Lb = darwin and ub = True and pb = zero_metrics
      and sb = initial_world and lb = 340 and ob = 1 and eb = "''Cannot allocate memory''"
      and ob' = 2 and nb = 3
      and Kc = failing_kernel and Lc = darwin and sc = ?s and lc = 340 and oc = 1
      and buffer = sample_buffer and oc' = 2 and p = 180 and m = ?m1 and wc = ?W3
      and idx = 2 and ec = "''Device not configured''" and oc'' = 4 and nc = 3
      and Kd = failing_kernel and Ld = darwin and sd = initial_world and cd = 1
      and sd' = failed_world and pd = zero_metrics and nd = 0]
  from t h obtain es where
    e: "events failed_world = events initial_world @ es" and
    c: "(\<exists>x\<in>set es. failed x) \<longrightarrow>
          (\<forall>x\<in>set es. \<not> is_Printf x)
          \<and> (True \<longrightarrow> turns failing_kernel darwin (Suc 0) zero_metrics initial_world = Some (Exit 1, failed_world))"
    by blast
  from e have es: "es = events failed_world" by (simp add: initial_world_def)
  from t g obtain es' where
    e': "events \<lparr>os = 4 :: nat, events = failed_events\<rparr> = events initial_world @ es'" and
    c': "(\<exists>x\<in>set es'. failed x) \<longrightarrow>
          (\<exists>es0 e err. es' = es0 @ [e, Fprintf_stderr ''sysctl: %s\<newline>'' [err]]
                 \<and> failed e \<and> (\<forall>x\<in>set es0. \<not> failed x))"
    by blast
  from e' have es': "es' = failed_events" by (simp add: initial_world_def)
  from t ha have a: "iteration size_failing_kernel darwin True zero_metrics initial_world =
          Some (Exit 1, emit [Sleep 1, Sysctl_iflist2_size (Inl ''Operation not permitted''),
                  Fprintf_stderr ''sysctl: %s\<newline>'' [''Operation not permitted'']]
                  (initial_world\<lparr>os := 1\<rparr>))"
    "main size_failing_kernel darwin 3 initial_world =
          Some (Exit 1, emit [Sysctl_iflist2_size (Inl ''Operation not permitted''),
                  Fprintf_stderr ''sysctl: %s\<newline>'' [''Operation not permitted'']]
                  (initial_world\<lparr>os := 1\<rparr>))"
    by blast+
  from t hb have b: "iteration read_failing_kernel darwin True zero_metrics initial_world =
          Some (Exit 1, emit [Sleep 1, Sysctl_iflist2_size (Inr 340),
                  Sysctl_iflist2 340 (Inl ''Cannot allocate memory''),
                  Fprintf_stderr ''sysctl: %s\<newline>'' [''Cannot allocate memory'']]
                  (initial_world\<lparr>os := 2\<rparr>))"
    "main read_failing_kernel darwin 3 initial_world =
          Some (Exit 1, emit [Sysctl_iflist2_size (Inr 340),
                  Sysctl_iflist2 340 (Inl ''Cannot allocate memory''),
                  Fprintf_stderr ''sysctl: %s\<newline>'' [''Cannot allocate memory'']]
                  (initial_world\<lparr>os := 2\<rparr>))"
    by blast+
  from t hc have "GetNetworkMetrics failing_kernel darwin True ?s =
          Some (Exit 1, emit [Visit 180 True,
                  Sysctl_ifdata (uint (2 :: u16)) (Inl ''Device not configured''),
                  Fprintf_stderr ''sysctl: %s\<newline>'' [''Device not configured'']] (?W3\<lparr>os := 4\<rparr>))"
    by blast
  with wf have p: "GetNetworkMetrics failing_kernel darwin True ?s = Some (Exit 1, failed_world)"
    by simp
  with t have it: "iteration failing_kernel darwin True zero_metrics initial_world = Some (Exit 1, failed_world)"
    "turns failing_kernel darwin (Suc 0) zero_metrics initial_world = Some (Exit 1, failed_world)"
    by blast+
  from a b have ab:
    "iteration size_failing_kernel darwin True zero_metrics initial_world =
        Some (Exit 1, \<lparr>os = 1, events = [Sleep 1,
                Sysctl_iflist2_size (Inl ''Operation not permitted''),
                Fprintf_stderr ''sysctl: %s\<newline>'' [''Operation not permitted'']]\<rparr>)"
    "main size_failing_kernel darwin 3 initial_world =
        Some (Exit 1, \<lparr>os = 1, events = [
                Sysctl_iflist2_size (Inl ''Operation not permitted''),
                Fprintf_stderr ''sysctl: %s\<newline>'' [''Operation not permitted'']]\<rparr>)"
    "iteration read_failing_kernel darwin True zero_metrics initial_world =
        Some (Exit 1, \<lparr>os = 2, events = [Sleep 1,
                Sysctl_iflist2_size (Inr 340), Sysctl_iflist2 340 (Inl ''Cannot allocate memory''),
                Fprintf_stderr ''sysctl: %s\<newline>'' [''Cannot allocate memory'']]\<rparr>)"
    "main read_failing_kernel darwin 3 initial_world =
        Some (Exit 1, \<lparr>os = 2, events = [
                Sysctl_iflist2_size (Inr 340), Sysctl_iflist2 340 (Inl ''Cannot allocate memory''),
                Fprintf_stderr ''sysctl: %s\<newline>'' [''Cannot allocate memory'']]\<rparr>)"
    by (simp_all add: emit_def initial_world_def)
  from c f it g es c' es' ab p show ?thesis by (simp add: list_all_iff)
qed

text \<open>
  Claim C6. The totals and deltas of bytes that are printed are the aggregated values
  themselves and their wrapping difference: nothing is rounded to a multiple of 1 KiB,
  whatever the comment of line 126 says.
\<close>

theorem byte_totals_exact:
  "GetNetworkMetrics K L u (emit [Sleep 1] w) = Some (Return cur, w1) \<Longrightarrow>
   \<exists>es. iteration K L u prev w = Some (Return cur, emit es w1)
      \<and> es ! 3 = Printf ''--- BYTES ---\<newline>'' []
      \<and> es ! 4 = Printf ''  Input (Download): %llu (total), %llu (delta)\<newline>''
                   [totalInputBytes cur, totalInputBytes cur - totalInputBytes prev]
      \<and> es ! 5 = Printf ''  Output (Upload): %llu (total), %llu (delta)\<newline>''
                   [totalOutputBytes cur, totalOutputBytes cur - totalOutputBytes prev]"
  by (rule exI [of _ "report prev cur @ input_overflow prev cur
                      @ output_overflow prev cur @ [Printf ''\<newline>\<newline>'' []]"])
     (simp add: iteration_Return report_def inputBytesDelta_def outputBytesDelta_def)

theorem byte_totals_exact_witness:
  "\<exists>w1 es. GetNetworkMetrics sample_kernel darwin False (emit [Sleep 1] initial_world) =
       Some (Return \<lparr>totalInputBytes = 33, totalOutputBytes = 44,
                     totalInputPackets = 11, totalOutputPackets = 22\<rparr>, w1)
     \<and> iteration sample_kernel darwin False zero_metrics initial_world =
       Some (Return \<lparr>totalInputBytes = 33, totalOutputBytes = 44,
                     totalInputPackets = 11, totalOutputPackets = 22\<rparr>, emit es w1)
     \<and> es ! 4 = Printf ''  Input (Download): %llu (total), %llu (delta)\<newline>'' [33, 33]
     \<and> es ! 5 = Printf ''  Output (Upload): %llu (total), %llu (delta)\<newline>'' [44, 44]"
proof -
  let ?C = "\<lparr>totalInputBytes = 33, totalOutputBytes = 44, totalInputPackets = 11, totalOutputPackets = 22\<rparr>"
  obtain w1 where g: "GetNetworkMetrics sample_kernel darwin False (emit [Sleep 1] initial_world) = Some (Return ?C, w1)"
    using map_option_fst_SomeD [OF sample_pass_embedded] by blast
  from byte_totals_exact [OF g, of zero_metrics] obtain es where
    "iteration sample_kernel darwin False zero_metrics initial_world = Some (Return ?C, emit es w1)"
    "es ! 4 = Printf ''  Input (Download): %llu (total), %llu (delta)\<newline>'' [33, 33]"
    "es ! 5 = Printf ''  Output (Upload): %llu (total), %llu (delta)\<newline>'' [44, 44]"
    by (auto simp: zero_metrics_def)
  with g show ?thesis by blast
qed

text \<open>
  Claim C7. When every field of the current sample is at least the field of the previous
  sample and exceeds it by less than \<open>2^63\<close>, the turn prints no warning and each delta
  is the plain difference, also when read as a signed number.
\<close>

theorem ordinary_growth:
  assumes "totalInputBytes prev \<le> totalInputBytes cur"
      and "unat (totalInputBytes cur) - unat (totalInputBytes prev) < 2 ^ 63"
      and "totalOutputBytes prev \<le> totalOutputBytes cur"
      and "unat (totalOutputBytes cur) - unat (totalOutputBytes prev) < 2 ^ 63"
      and "totalInputPackets prev \<le> totalInputPackets cur"
      and "unat (totalInputPackets cur) - unat (totalInputPackets prev) < 2 ^ 63"
      and "totalOutputPackets prev \<le> totalOutputPackets cur"
      and "unat (totalOutputPackets cur) - unat (totalOutputPackets prev) < 2 ^ 63"
      and "GetNetworkMetrics K L u (emit [Sleep 1] w) = Some (Return cur, w1)"
  shows "iteration K L u prev w =
           Some (Return cur, emit (report prev cur @ [Printf ''\<newline>\<newline>'' []]) w1)
       \<and> input_overflow prev cur = [] \<and> output_overflow prev cur = []
       \<and> uint (inputPacketsDelta prev cur) = uint (totalInputPackets cur) - uint (totalInputPackets prev)
       \<and> uint (outputPacketsDelta prev cur) = uint (totalOutputPackets cur) - uint (totalOutputPackets prev)
       \<and> uint (inputBytesDelta prev cur) = uint (totalInputBytes cur) - uint (totalInputBytes prev)
       \<and> uint (outputBytesDelta prev cur) = uint (totalOutputBytes cur) - uint (totalOutputBytes prev)
       \<and> sint (inputPacketsDelta prev cur) = uint (totalInputPackets cur) - uint (totalInputPackets prev)
       \<and> sint (outputPacketsDelta prev cur) = uint (totalOutputPackets cur) - uint (totalOutputPackets prev)
       \<and> sint (inputBytesDelta prev cur) = uint (totalInputBytes cur) - uint (totalInputBytes prev)
       \<and> sint (outputBytesDelta prev cur) = uint (totalOutputBytes cur) - uint (totalOutputBytes prev)"
proof -
  have io: "input_overflow prev cur = []" and oo: "output_overflow prev cur = []"
    using assms(1,3) by (simp_all add: input_overflow_def output_overflow_def)
  have "iteration K L u prev w =
          Some (Return cur, emit (report prev cur @ [Printf ''\<newline>\<newline>'' []]) w1)"
    using iteration_Return [OF assms(9), of prev] io oo by simp
  moreover note io oo
  moreover have "uint (inputPacketsDelta prev cur) = uint (totalInputPackets cur) - uint (totalInputPackets prev)"
    unfolding inputPacketsDelta_def using assms(5) by (rule uint_sub_plain)
  moreover have "uint (outputPacketsDelta prev cur) = uint (totalOutputPackets cur) - uint (totalOutputPackets prev)"
    unfolding outputPacketsDelta_def using assms(7) by (rule uint_sub_plain)
  moreover have "uint (inputBytesDelta prev cur) = uint (totalInputBytes cur) - uint (totalInputBytes prev)"
    unfolding inputBytesDelta_def using assms(1) by (rule uint_sub_plain)
  moreover have "uint (outputBytesDelta prev cur) = uint (totalOutputBytes cur) - uint (totalOutputBytes prev)"
    unfolding outputBytesDelta_def using assms(3) by (rule uint_sub_plain)
  moreover have "sint (inputPacketsDelta prev cur) = uint (totalInputPackets cur) - uint (totalInputPackets prev)"
    unfolding inputPacketsDelta_def using assms(5,6) by (rule sint_sub_plain)
  moreover have "sint (outputPacketsDelta prev cur) = uint (totalOutputPackets cur) - uint (totalOutputPackets prev)"
    unfolding outputPacketsDelta_def using assms(7,8) by (rule sint_sub_plain)
  moreover have "sint (inputBytesDelta prev cur) = uint (totalInputBytes cur) - uint (totalInputBytes prev)"
    unfolding inputBytesDelta_def using assms(1,2) by (rule sint_sub_plain)
  moreover have "sint (outputBytesDelta prev cur) = uint (totalOutputBytes cur) - uint (totalOutputBytes prev)"
    unfolding outputBytesDelta_def using assms(3,4) by (rule sint_sub_plain)
  ultimately show ?thesis by blast
qed

theorem ordinary_growth_witness:
  "\<exists>w1. GetNetworkMetrics sample_kernel darwin True (emit [Sleep 1] initial_world) =
       Some (Return \<lparr>totalInputBytes = 605, totalOutputBytes = 10,
                     totalInputPackets = 200, totalOutputPackets = 400\<rparr>, w1)
     \<and> iteration sample_kernel darwin True
         \<lparr>totalInputBytes = 600, totalOutputBytes = 10, totalInputPackets = 100, totalOutputPackets = 399\<rparr> initial_world =
       Some (Return \<lparr>totalInputBytes = 605, totalOutputBytes = 10,
                     totalInputPackets = 200, totalOutputPackets = 400\<rparr>,
             emit [Printf ''--- PACKETS ---\<newline>'' [],
                   Printf ''  Input (Download): %llu (total), %llu (delta)\<newline>'' [200, 100],
                   Printf ''  Output (Upload): %llu (total), %llu (delta)\<newline>'' [400, 1],
                   Printf ''--- BYTES ---\<newline>'' [],
                   Printf ''  Input (Download): %llu (total), %llu (delta)\<newline>'' [605, 5],
                   Printf ''  Output (Upload): %llu (total), %llu (delta)\<newline>'' [10, 0],
                   Printf ''\<newline>\<newline>'' []] w1)"
proof -
  let ?P = "\<lparr>totalInputBytes = 600, totalOutputBytes = 10, totalInputPackets = 100, totalOutputPackets = 399\<rparr>"
  let ?C = "\<lparr>totalInputBytes = 605, totalOutputBytes = 10, totalInputPackets = 200, totalOutputPackets = 400\<rparr>"
  obtain w1 where g: "GetNetworkMetrics sample_kernel darwin True (emit [Sleep 1] initial_world) = Some (Return ?C, w1)"
    using map_option_fst_SomeD [OF sample_pass_ifmib] by blast
  have "iteration sample_kernel darwin True ?P initial_world =
          Some (Return ?C, emit (report ?P ?C @ [Printf ''\<newline>\<newline>'' []]) w1)"
    using ordinary_growth [of ?P ?C sample_kernel darwin True initial_world w1, OF _ _ _ _ _ _ _ _ g]
    by simp
  with g show ?thesis
    by (simp add: report_def inputPacketsDelta_def outputPacketsDelta_def inputBytesDelta_def
        outputBytesDelta_def)
qed


text \<open>
  Claim C8. On a buffer that is the concatenation of well-formed messages the scan
  returns and never reads outside the buffer. It examines each message once, in the
  order of the buffer and at its offset, takes it for \<^verbatim>\<open>RTM_IFINFO2\<close> exactly when its
  type tag is \<^verbatim>\<open>RTM_IFINFO2\<close>, and ends with the cursor at the length of the buffer. Only
  \<^verbatim>\<open>exit(1)\<close> on a failed interface query, which needs \<^verbatim>\<open>useIfmibData\<close>, stops it earlier, and
  then the messages examined are the first ones of the buffer.
\<close>

theorem parser_visits_records:
  assumes "\<forall>r\<in>set rs. well_formed L r"
  shows "\<exists>res. scan K L u (concat rs) 0 m w = Some res
     \<and> fst res \<noteq> OutOfBounds
     \<and> (\<not> u \<longrightarrow> (\<exists>x. fst res = Return x))
     \<and> (\<forall>p M. fst res = Return (p, M) \<longrightarrow>
           p = length (concat rs)
           \<and> (\<exists>es. events (snd res) = events w @ es
                \<and> visits es =
                    map (\<lambda>i. (length (concat (take i rs)),
                               ifm_type L (rs ! i) 0 = Some (RTM_IFINFO2 L))) [0..<length rs]))
     \<and> (\<forall>c. fst res = Exit c \<longrightarrow>
           u \<and> (\<exists>es k. events (snd res) = events w @ es
                \<and> visits es =
                    take k (map (\<lambda>i. (length (concat (take i rs)),
                                       ifm_type L (rs ! i) 0 = Some (RTM_IFINFO2 L)))
                              [0..<length rs])))"
  using scan_records [OF assms, of K u "[]" m w]
  by (simp add: expected_visits_map)

theorem parser_visits_records_witness:
  "list_all (well_formed darwin) sample_records
   \<and> (\<exists>M w'. scan sample_kernel darwin False (concat sample_records) 0 zero_metrics initial_world
                = Some (Return (340, M), w')
             \<and> visits (events w') = [(0, True), (160, False), (180, True)])"
proof -
  have wf: "\<forall>r\<in>set sample_records. well_formed darwin r" by code_simp
  have ev: "map (\<lambda>i. (length (concat (take i sample_records)),
                 ifm_type darwin (sample_records ! i) 0 = Some (RTM_IFINFO2 darwin)))
        [0..<length sample_records] = [(0, True), (160, False), (180, True)]" by code_simp
  have len: "length (concat sample_records) = 340" by code_simp
  from parser_visits_records [OF wf, of sample_kernel False zero_metrics initial_world]
  obtain res where
    sc: "scan sample_kernel darwin False (concat sample_records) 0 zero_metrics initial_world = Some res"
    and ret: "\<exists>x. fst res = Return x"
    and vis: "\<forall>p M. fst res = Return (p, M) \<longrightarrow>
           p = length (concat sample_records)
           \<and> (\<exists>es. events (snd res) = events initial_world @ es
                \<and> visits es =
                    map (\<lambda>i. (length (concat (take i sample_records)),
                               ifm_type darwin (sample_records ! i) 0 = Some (RTM_IFINFO2 darwin)))
                      [0..<length sample_records])"
    by blast
  from ret obtain p M where r: "fst res = Return (p, M)" by force
  with vis ev len obtain es where
    "p = 340" "events (snd res) = events initial_world @ es"
    "visits es = [(0, True), (160, False), (180, True)]" by auto
  then have "res = (Return (340, M), snd res)"
    "visits (events (snd res)) = [(0, True), (160, False), (180, True)]"
    using r by (simp_all add: initial_world_def prod_eq_iff)
  with sc have "\<exists>M w'. scan sample_kernel darwin False (concat sample_records) 0 zero_metrics initial_world
                = Some (Return (340, M), w')
             \<and> visits (events w') = [(0, True), (160, False), (180, True)]"
    by metis
  with wf show ?thesis by (simp add: list_all_iff)
qed

text \<open>
  Claim C9. The value a pass returns is, field by field, the sum of the counter sets of
  the pass, one for each message taken for \<^verbatim>\<open>RTM_IFINFO2\<close> and none left out: no flag of
  the interface is looked at. The sum does not depend on the order of the counter sets.
\<close>

theorem aggregation_sum:
  "(GetNetworkMetrics K L u w = Some (Return M, w') \<longrightarrow>
      (\<exists>n buffer es ds.
         events w' = events w @ [Sysctl_iflist2_size (Inr n), Sysctl_iflist2 n (Inr buffer)] @ es
         \<and> length ds = length (generic_offsets es)
         \<and> (if u then map snd (queries es) = map Inr ds
             else map Some ds = map (ifm_data L buffer) (generic_offsets es))
         \<and> M = aggregate ds))
   \<and> (mset ds1 = mset ds2 \<longrightarrow> aggregate ds1 = aggregate ds2)"
proof (intro conjI impI)
  assume "GetNetworkMetrics K L u w = Some (Return M, w')"
  from pass_counters [OF this] obtain n buffer es ds where
    "events w' = events w @ [Sysctl_iflist2_size (Inr n), Sysctl_iflist2 n (Inr buffer)] @ es"
    "M = foldl add_data zero_metrics ds"
    "length ds = length (generic_offsets es)"
    "if u then map (\<lambda>q. Some (fst q)) (queries es)
                     = map (\<lambda>p. map_option uint (ifm_index L buffer p)) (generic_offsets es)
                  \<and> map snd (queries es) = map Inr ds
         else queries es = []
              \<and> map Some ds = map (ifm_data L buffer) (generic_offsets es)"
    by blast
  then show "\<exists>n buffer es ds.
         events w' = events w @ [Sysctl_iflist2_size (Inr n), Sysctl_iflist2 n (Inr buffer)] @ es
         \<and> length ds = length (generic_offsets es)
         \<and> (if u then map snd (queries es) = map Inr ds
             else map Some ds = map (ifm_data L buffer) (generic_offsets es))
         \<and> M = aggregate ds"
    by (intro exI [of _ n] exI [of _ buffer] exI [of _ es] exI [of _ ds])
       (simp add: foldl_add_data_aggregate split: if_splits)
next
  assume "mset ds1 = mset ds2"
  then show "aggregate ds1 = aggregate ds2" by (rule aggregate_mset)
qed

theorem aggregation_sum_witness:
  "GetNetworkMetrics sample_kernel darwin False initial_world = Some (Return embedded_sample, embedded_world)
   \<and> (\<exists>n buffer es ds.
         events embedded_world =
           events initial_world @ [Sysctl_iflist2_size (Inr n), Sysctl_iflist2 n (Inr buffer)] @ es
         \<and> length ds = length (generic_offsets es)
         \<and> map Some ds = map (ifm_data darwin buffer) (generic_offsets es)
         \<and> embedded_sample = aggregate ds)
   \<and> mset [\<lparr>ifi_ipackets = 1, ifi_opackets = 2, ifi_ibytes = 3, ifi_obytes = 4\<rparr>,
            \<lparr>ifi_ipackets = 10, ifi_opackets = 20, ifi_ibytes = 30, ifi_obytes = 40\<rparr>]
     = mset [\<lparr>ifi_ipackets = 10, ifi_opackets = 20, ifi_ibytes = 30, ifi_obytes = 40\<rparr>,
             \<lparr>ifi_ipackets = 1, ifi_opackets = 2, ifi_ibytes = 3, ifi_obytes = 4\<rparr>]
   \<and> aggregate [\<lparr>ifi_ipackets = 1, ifi_opackets = 2, ifi_ibytes = 3, ifi_obytes = 4\<rparr>,
                 \<lparr>ifi_ipackets = 10, ifi_opackets = 20, ifi_ibytes = 30, ifi_obytes = 40\<rparr>]
     = aggregate [\<lparr>ifi_ipackets = 10, ifi_opackets = 20, ifi_ibytes = 30, ifi_obytes = 40\<rparr>,
                  \<lparr>ifi_ipackets = 1, ifi_opackets = 2, ifi_ibytes = 3, ifi_obytes = 4\<rparr>]"
proof -
  let ?d1 = "\<lparr>ifi_ipackets = 1, ifi_opackets = 2, ifi_ibytes = 3, ifi_obytes = 4\<rparr>"
  let ?d2 = "\<lparr>ifi_ipackets = 10, ifi_opackets = 20, ifi_ibytes = 30, ifi_obytes = 40\<rparr>"
  have p: "mset [?d1, ?d2] = mset [?d2, ?d1]" by (simp add: add_mset_commute)
  note t = aggregation_sum [where K = sample_kernel and L = darwin and u = False and w = initial_world
      and M = embedded_sample and w' = embedded_world and ?ds1.0 = "[?d1, ?d2]"
      and ?ds2.0 = "[?d2, ?d1]"]
  from t embedded_pass p show ?thesis by simp
qed

text \<open>
  Claim C10. The loop of line 62 returns on every buffer in which each message it comes
  to declares a length above zero: each turn then moves the cursor forward. The
  condition is needed: on a message of another type that declares the length zero the
  cursor stays where it is and the loop never returns.
\<close>

theorem scan_terminates:
  "((\<forall>p m' w'. reaches K L u buf m w p m' w' \<longrightarrow> p < length buf
        \<longrightarrow> ifm_msglen L buf p \<noteq> Some 0)
      \<longrightarrow> (\<exists>res. scan K L u buf 0 m w = Some res))
   \<and> (0 < length buf' \<and> ifm_msglen L buf' 0 = Some 0
        \<and> (\<exists>ty. ifm_type L buf' 0 = Some ty \<and> ty \<noteq> RTM_IFINFO2 L)
      \<longrightarrow> scan K L u buf' 0 m w = None)"
  using scan_returns_reached [where K = K and L = L and u = u and buf = buf
      and ?m0.0 = m and ?w0.0 = w and p = 0 and m = m and w = w]
    scan_stuck [of 0 buf' L _ K u m w]
  by (auto intro: reaches.start)

theorem scan_terminates_witness:
  "(\<exists>res. scan sample_kernel darwin False (other_msg @ other_msg) 0 zero_metrics initial_world = Some res)
   \<and> 0 < length zero_length_buffer \<and> ifm_msglen darwin zero_length_buffer 0 = Some 0
   \<and> (\<exists>ty. ifm_type darwin zero_length_buffer 0 = Some ty \<and> ty \<noteq> RTM_IFINFO2 darwin)
   \<and> scan sample_kernel darwin False zero_length_buffer 0 zero_metrics initial_world = None"
proof -
  have pos: "\<forall>p m' w'. reaches sample_kernel darwin False (other_msg @ other_msg) zero_metrics initial_world
                 p m' w'
        \<longrightarrow> p < length (other_msg @ other_msg)
        \<longrightarrow> ifm_msglen darwin (other_msg @ other_msg) p \<noteq> Some 0"
  proof (intro allI impI)
    fix p m' w'
    assume "reaches sample_kernel darwin False (other_msg @ other_msg) zero_metrics initial_world p m' w'"
      "p < length (other_msg @ other_msg)"
    with reaches_two_msgs [of p m' w'] two_msgs_headers(1) have "p = 0 \<or> p = 20" by auto
    with two_msgs_headers(2,3) show "ifm_msglen darwin (other_msg @ other_msg) p \<noteq> Some 0"
      by auto
  qed
  have z: "\<exists>ty. ifm_type darwin zero_length_buffer 0 = Some ty \<and> ty \<noteq> RTM_IFINFO2 darwin"
    using zero_length_header(3,4) by blast
  note t = scan_terminates [where L = darwin and buf = "other_msg @ other_msg"
      and K = sample_kernel and u = False and m = zero_metrics and w = initial_world
      and buf' = zero_length_buffer]
  from t pos z zero_length_header(1,2) show ?thesis by blast
qed

end
